theory Spec2Isabelle
  imports Main
begin

section \<open>JavaScript strings and numbers\<close>

text \<open>
  A JavaScript string is modelled as a list of code units. The code units are those of
  type \<^typ>\<open>char\<close>, that is the range 0..255 (Latin-1); on this range the operations below
  (\<^verbatim>\<open>\s\<close>, \<^verbatim>\<open>trim\<close>, \<^verbatim>\<open>toLowerCase\<close>) stay inside the range.

  A number of the program is a double. The numbers modelled here are whole numbers, and an
  integer of the model stands for the double of the same value. The two agree on the safe
  integers, those of magnitude at most \<open>2^53 - 1\<close>: there every integer is a double,
  \<^verbatim>\<open>String\<close> writes its decimal digits and adding 1 is exact. Beyond them a double
  rounds, and from \<open>10^21\<close> on \<^verbatim>\<open>String\<close> writes an exponent. So a function that reads a
  number from free text keeps the numbers outside the safe range apart, and a theorem about
  the digits of a number carries the bound.
\<close>

definition MAX_SAFE_INTEGER :: int where
  "MAX_SAFE_INTEGER = 9007199254740991"

text \<open>
  The white space and line terminator code units below 256: TAB, LF, VT, FF, CR, SP and
  NBSP. This is the class \<^verbatim>\<open>\s\<close> of a regular expression and what \<^verbatim>\<open>trim\<close> strips.
\<close>

definition isWhiteSpace :: "char \<Rightarrow> bool" where
  "isWhiteSpace c \<longleftrightarrow> (of_char c :: nat) \<in> {9, 10, 11, 12, 13, 32, 160}"

text \<open>\<^verbatim>\<open>s.replace(/\s+/g, "")\<close>: scan from the left; at a white space character the
  regular expression matches the longest run of white space, the run is replaced by the
  empty string and the scan goes on behind the run.\<close>

function replace_ws_runs :: "string \<Rightarrow> string" where
  "replace_ws_runs [] = []"
| "replace_ws_runs (c # cs) =
     (if isWhiteSpace c then replace_ws_runs (dropWhile isWhiteSpace cs)
      else c # replace_ws_runs cs)"
  by pat_completeness auto

termination
  by (relation "measure length") (auto simp: length_dropWhile_le less_Suc_eq_le)

text \<open>\<^verbatim>\<open>toLowerCase\<close> on one code unit: A..Z and the Latin-1 capitals (192..222 but the
  multiplication sign 215) move up by 32.\<close>

definition toLowerChar :: "char \<Rightarrow> char" where
  "toLowerChar c = (let n = (of_char c :: nat) in
     if (65 \<le> n \<and> n \<le> 90) \<or> (192 \<le> n \<and> n \<le> 222 \<and> n \<noteq> 215)
     then char_of (n + 32) else c)"

definition toLowerCase :: "string \<Rightarrow> string" where
  "toLowerCase s = map toLowerChar s"

text \<open>\<^verbatim>\<open>s.slice(start, end)\<close>: a negative index counts from the end, both indices are
  clamped to the string, and a missing \<^verbatim>\<open>end\<close> is the length.\<close>

definition slice_index :: "nat \<Rightarrow> int \<Rightarrow> nat" where
  "slice_index len i = (if i < 0 then nat (max (int len + i) 0) else min (nat i) len)"

definition slice :: "string \<Rightarrow> int \<Rightarrow> int option \<Rightarrow> string" where
  "slice s start end =
     (let len = length s;
          from = slice_index len start;
          to = (case end of None \<Rightarrow> len | Some e \<Rightarrow> slice_index len e)
      in take (to - from) (drop from s))"

text \<open>\<^verbatim>\<open>s.padStart(maxLength, fillString)\<close>: the fill string is repeated and cut to the
  missing length; a string that is long enough is returned as it is.\<close>

definition padStart :: "string \<Rightarrow> nat \<Rightarrow> string \<Rightarrow> string" where
  "padStart s maxLength fillString =
     (if maxLength \<le> length s \<or> fillString = [] then s
      else (let fillLen = maxLength - length s
            in take fillLen (concat (replicate fillLen fillString)) @ s))"

text \<open>\<^verbatim>\<open>String(n)\<close> and \<^verbatim>\<open>n.toString()\<close> of a safe integer: its decimal digits, with
  a minus sign for a negative one.\<close>

definition digit_char :: "nat \<Rightarrow> char" where
  "digit_char d = char_of (48 + d)"

fun string_of_nat :: "nat \<Rightarrow> string" where
  "string_of_nat n = (if n < 10 then [digit_char n]
     else string_of_nat (n div 10) @ [digit_char (n mod 10)])"

declare string_of_nat.simps [simp del]

definition string_of_int :: "int \<Rightarrow> string" where
  "string_of_int i = (if i < 0 then CHR ''-'' # string_of_nat (nat (- i))
     else string_of_nat (nat i))"

text \<open>\<^verbatim>\<open>s.trim()\<close> and \<^verbatim>\<open>s.startsWith(p)\<close>.\<close>

definition trim :: "string \<Rightarrow> string" where
  "trim s = rev (dropWhile isWhiteSpace (rev (dropWhile isWhiteSpace s)))"

definition startsWith :: "string \<Rightarrow> string \<Rightarrow> bool" where
  "startsWith s p \<longleftrightarrow> take (length p) s = p"

text \<open>The part of a \<^verbatim>\<open>Date\<close> that the program reads: \<^verbatim>\<open>getFullYear()\<close>,
  \<^verbatim>\<open>getMonth()\<close> (0 for January) and \<^verbatim>\<open>getDate()\<close> (the day of the month).\<close>

record Date =
  getFullYear :: int
  getMonth :: nat
  getDate :: nat

section \<open>The identifier and password generator\<close>

record Generated =
  nim :: string
  password :: string
  username :: string

text \<open>The argument \<^verbatim>\<open>order\<close> is a whole number; \<^verbatim>\<open>String(order)\<close> is written by
  \<open>string_of_int\<close>, which is what the program writes for a safe integer.\<close>

definition generateNimAndPassword :: "string \<Rightarrow> int \<Rightarrow> Date \<Rightarrow> Generated" where
  "generateNimAndPassword name order date =
     (let year = string_of_int (getFullYear date);
          month = padStart (string_of_nat (getMonth date + 1)) 2 ''0'';
          day = padStart (string_of_nat (getDate date)) 2 ''0'';
          orderStr = padStart (string_of_int order) 3 ''0'';
          nim = year @ month @ day @ orderStr;
          normalizedName = slice (toLowerCase (replace_ws_runs name)) 0 (Some 7);
          password = normalizedName @ orderStr;
          username = nim
      in \<lparr>nim = nim, password = password, username = username\<rparr>)"

text \<open>The words of the specification: a number written with exactly \<open>k\<close> decimal digits,
  and a number zero-padded to at least \<open>k\<close> digits.\<close>

fun spec_fixed_digits :: "nat \<Rightarrow> nat \<Rightarrow> string" where
  "spec_fixed_digits 0 n = []"
| "spec_fixed_digits (Suc k) n = spec_fixed_digits k (n div 10) @ [digit_char (n mod 10)]"

definition spec_zero_padded :: "nat \<Rightarrow> nat \<Rightarrow> string" where
  "spec_zero_padded k n = (if n < 10 ^ k then spec_fixed_digits k n else string_of_nat n)"

section \<open>The next sequence number of the day\<close>

text \<open>\<^verbatim>\<open>Number.parseInt(s, 10)\<close>, first part: leading white space is skipped, one sign is
  read, then the longest run of decimal digits. \<open>read_integer\<close> is the integer that the sign
  and the digits write, and \<open>None\<close> when there is no digit.\<close>

definition isDigit :: "char \<Rightarrow> bool" where
  "isDigit c \<longleftrightarrow> 48 \<le> (of_char c :: nat) \<and> (of_char c :: nat) \<le> 57"

definition digit_value :: "char \<Rightarrow> nat" where
  "digit_value c = of_char c - 48"

definition decimal_value :: "string \<Rightarrow> nat" where
  "decimal_value s = foldl (\<lambda>a c. 10 * a + digit_value c) 0 s"

definition read_integer :: "string \<Rightarrow> int option" where
  "read_integer s =
     (let t = dropWhile isWhiteSpace s;
          negative = (t \<noteq> [] \<and> hd t = CHR ''-'');
          r = (if t \<noteq> [] \<and> (hd t = CHR ''+'' \<or> hd t = CHR ''-'') then tl t else t);
          z = takeWhile isDigit r
      in if z = [] then None
         else Some (if negative then - int (decimal_value z) else int (decimal_value z)))"

text \<open>\<^verbatim>\<open>Number.parseInt(s, 10)\<close>, second part: the result is \<^verbatim>\<open>NaN\<close> when there is no
  digit, and otherwise the double nearest to the integer read. For a safe integer that is
  the integer itself, \<open>Exact\<close>. For a greater one it is some double from \<open>2^53\<close> on
  (\<^verbatim>\<open>Infinity\<close> among them), \<open>AboveSafe\<close>, and for a smaller one some double up to \<open>- 2^53\<close>,
  \<open>BelowSafe\<close>: which double, the model does not say.\<close>

datatype number = NaN | Exact int | AboveSafe | BelowSafe

definition to_number :: "int \<Rightarrow> number" where
  "to_number v =
     (if MAX_SAFE_INTEGER < v then AboveSafe
      else if v < - MAX_SAFE_INTEGER then BelowSafe
      else Exact v)"

definition parseInt :: "string \<Rightarrow> number" where
  "parseInt s = (case read_integer s of None \<Rightarrow> NaN | Some v \<Rightarrow> to_number v)"

text \<open>The fields of a \<^verbatim>\<open>User\<close> that the generator reads. \<^verbatim>\<open>nim\<close> is
  \<^verbatim>\<open>string | null\<close>.\<close>

record User =
  u_username :: string
  u_nim :: "string option"
  u_role :: string

text \<open>The prefix of the date: the year, the month and the day as both functions write
  them.\<close>

definition date_prefix :: "Date \<Rightarrow> string" where
  "date_prefix date =
     (let year = string_of_int (getFullYear date);
          month = padStart (string_of_nat (getMonth date + 1)) 2 ''0'';
          day = padStart (string_of_nat (getDate date)) 2 ''0''
      in year @ month @ day)"

text \<open>The body of \<^verbatim>\<open>users.forEach\<close>, on the variable \<^verbatim>\<open>maxOrder\<close>. The variable
  starts at 0 and only grows: it is \<open>Some m\<close> while it is the safe integer \<open>m\<close>, and \<open>None\<close>
  from the moment it is a double from \<open>2^53\<close> on, which no safe integer exceeds and whose
  value the model does not follow.\<close>

definition order_step :: "string \<Rightarrow> int option \<Rightarrow> User \<Rightarrow> int option" where
  "order_step prefix maxOrder u =
     (case u_nim u of
        None \<Rightarrow> maxOrder
      | Some raw \<Rightarrow>
          if u_role u \<noteq> ''mahasiswa'' \<or> raw = [] then maxOrder
          else (let nim = trim raw in
            if \<not> startsWith nim prefix then maxOrder
            else (let suffix = slice nim (int (length prefix)) None in
              if length suffix = 0 then maxOrder
              else (case parseInt suffix of
                      NaN \<Rightarrow> maxOrder
                    | Exact n \<Rightarrow>
                        (case maxOrder of
                           None \<Rightarrow> None
                         | Some m \<Rightarrow> if n > m then Some n else Some m)
                    | AboveSafe \<Rightarrow> None
                    | BelowSafe \<Rightarrow> maxOrder))))"

text \<open>The result is \<open>Some n\<close> for the integer \<open>n\<close>, at most \<open>2^53\<close> and so exact, and \<open>None\<close>
  for a double of at least \<open>2^53\<close> that the model does not follow.\<close>

definition getNextOrderForToday :: "User list \<Rightarrow> Date \<Rightarrow> int option" where
  "getNextOrderForToday users date =
     (let year = string_of_int (getFullYear date);
          month = padStart (string_of_nat (getMonth date + 1)) 2 ''0'';
          day = padStart (string_of_nat (getDate date)) 2 ''0'';
          prefix = year @ month @ day;
          maxOrder = foldl (order_step prefix) (Some 0) users
      in case maxOrder of None \<Rightarrow> None | Some m \<Rightarrow> Some (m + 1))"

text \<open>The words of the specification: the suffixes behind the prefix in the identifiers
  that start with it, and the numbers read from them.\<close>

definition spec_matching_suffixes :: "User list \<Rightarrow> string \<Rightarrow> string list" where
  "spec_matching_suffixes users prefix =
     [drop (length prefix) (trim raw).
        u \<leftarrow> users, u_role u = ''mahasiswa'',
        raw \<leftarrow> (case u_nim u of None \<Rightarrow> [] | Some raw \<Rightarrow> [raw]), raw \<noteq> [],
        startsWith (trim raw) prefix]"

definition spec_suffix_numbers :: "User list \<Rightarrow> string \<Rightarrow> int list" where
  "spec_suffix_numbers users prefix =
     [n. s \<leftarrow> spec_matching_suffixes users prefix,
         n \<leftarrow> (case read_integer s of None \<Rightarrow> [] | Some n \<Rightarrow> [n]), 0 < n]"

section \<open>The allocation loop of the bulk upload\<close>

text \<open>The number behind the date prefix of an identifier, read back: what makes two
  sequence numbers give two identifiers, and the collision loop end.\<close>

definition order_of_suffix :: "string \<Rightarrow> int" where
  "order_of_suffix s =
     (let t = dropWhile (\<lambda>c. c = CHR ''0'') s
      in if t \<noteq> [] \<and> hd t = CHR ''-'' then - int (decimal_value (tl t))
         else int (decimal_value t))"

definition order_of_nim :: "Date \<Rightarrow> string \<Rightarrow> int" where
  "order_of_nim date s = order_of_suffix (drop (length (date_prefix date)) s)"

text \<open>The \<^verbatim>\<open>while (true)\<close> loop: the first candidate from \<^verbatim>\<open>candidateOrder\<close> on whose
  identifier is not in \<^verbatim>\<open>usedNims\<close> and whose user name is not in
  \<^verbatim>\<open>usedUsernames\<close>. A \<^verbatim>\<open>Set\<close> of strings is the list of its elements.\<close>

function find_candidate :: "string \<Rightarrow> Date \<Rightarrow> string list \<Rightarrow> string list \<Rightarrow> int \<Rightarrow> int" where
  "find_candidate rawName now usedNims usedUsernames candidateOrder =
     (let generated = generateNimAndPassword rawName candidateOrder now;
          nimUsed = (nim generated \<in> set usedNims);
          usernameUsed = (username generated \<in> set usedUsernames)
      in if \<not> nimUsed \<and> \<not> usernameUsed then candidateOrder
         else find_candidate rawName now usedNims usedUsernames (candidateOrder + 1))"
  by pat_completeness auto

text \<open>\<^verbatim>\<open>Set.add\<close>.\<close>

definition set_add :: "string \<Rightarrow> string list \<Rightarrow> string list" where
  "set_add x s = (if x \<in> set s then s else s @ [x])"

text \<open>A row of the sheet as \<^verbatim>\<open>sheet_to_json\<close> gives it (a cell may be missing), a row of
  the result, and the variables of the loop.\<close>

record SheetRow =
  No :: "string option"
  Nama :: "string option"

record BulkStudentRow = Generated +
  row_order :: int
  row_name :: string

record UploadState =
  baseOrder :: int
  rows :: "BulkStudentRow list"
  usedNims :: "string list"
  usedUsernames :: "string list"

text \<open>The body of \<^verbatim>\<open>json.forEach\<close>.\<close>

definition upload_row :: "Date \<Rightarrow> UploadState \<Rightarrow> SheetRow \<Rightarrow> UploadState" where
  "upload_row now st row =
     (let rawName = trim (case Nama row of None \<Rightarrow> [] | Some s \<Rightarrow> s)
      in if rawName = [] then st
         else (let candidateOrder =
                     find_candidate rawName now (usedNims st) (usedUsernames st) (baseOrder st);
                   generated = generateNimAndPassword rawName candidateOrder now
               in \<lparr>baseOrder = candidateOrder + 1,
                   rows = rows st @ [\<lparr>nim = nim generated, password = password generated,
                                       username = username generated,
                                       row_order = candidateOrder, row_name = rawName\<rparr>],
                   usedNims = set_add (nim generated) (usedNims st),
                   usedUsernames = set_add (username generated) (usedUsernames st)\<rparr>))"

text \<open>The names and sets already in the database, and the whole of the handler from the
  parsed sheet on: the rows, or the message it shows when there is none. The result is
  \<open>None\<close> when the starting number is a double that the model does not follow.\<close>

definition existing_step :: "string list \<times> string list \<Rightarrow> User \<Rightarrow> string list \<times> string list" where
  "existing_step acc u =
     (let existingUsernames = fst acc; existingNims = snd acc;
          existingUsernames' = (if u_username u \<noteq> [] then set_add (trim (u_username u)) existingUsernames
                                 else existingUsernames);
          existingNims' = (case u_nim u of
                             None \<Rightarrow> existingNims
                           | Some n \<Rightarrow> if n \<noteq> [] then set_add (trim n) existingNims else existingNims)
      in (existingUsernames', existingNims'))"

definition handleUploadTemplate ::
  "User list \<Rightarrow> Date \<Rightarrow> SheetRow list \<Rightarrow> (string + BulkStudentRow list) option" where
  "handleUploadTemplate users now json =
     (let existing = foldl existing_step ([], []) users
      in case getNextOrderForToday users now of
           None \<Rightarrow> None
         | Some start \<Rightarrow>
             (let st = foldl (upload_row now)
                         \<lparr>baseOrder = start, rows = [],
                          usedNims = snd existing, usedUsernames = fst existing\<rparr> json
              in if length (rows st) = 0
                 then Some (Inl ''Tidak ada nama mahasiswa yang terbaca di file.'')
                 else Some (Inr (rows st))))"



section \<open>The API client\<close>

subsection \<open>Values\<close>

text \<open>A parsed JSON value. An object is the list of its members in the order of the text;
  a later member of the same name wins. Numbers are the integers.\<close>

datatype json = JNull | JBool bool | JNum int | JStr string | JArr "json list"
  | JObj "(string \<times> json) list"

text \<open>Reading a property of a value: \<open>None\<close> is \<^verbatim>\<open>undefined\<close>.\<close>

fun get_property :: "json \<Rightarrow> string \<Rightarrow> json option" where
  "get_property (JObj members) k = map_of (rev members) k"
| "get_property _ k = None"

text \<open>Truthiness, \<^verbatim>\<open>typeof v === "object"\<close> and \<^verbatim>\<open>a ?? b\<close>.\<close>

fun truthy :: "json option \<Rightarrow> bool" where
  "truthy None = False"
| "truthy (Some JNull) = False"
| "truthy (Some (JBool b)) = b"
| "truthy (Some (JNum n)) = (n \<noteq> 0)"
| "truthy (Some (JStr s)) = (s \<noteq> [])"
| "truthy (Some (JArr _)) = True"
| "truthy (Some (JObj _)) = True"

fun typeof_object :: "json \<Rightarrow> bool" where
  "typeof_object JNull = True"
| "typeof_object (JArr _) = True"
| "typeof_object (JObj _) = True"
| "typeof_object _ = False"

fun nullish :: "json option \<Rightarrow> bool" where
  "nullish None = True"
| "nullish (Some JNull) = True"
| "nullish (Some _) = False"

definition coalesce :: "json option \<Rightarrow> json option \<Rightarrow> json option" where
  "coalesce a b = (if nullish a then b else a)"

text \<open>\<^verbatim>\<open>Array.prototype.join\<close> and the conversion of a value to a string that
  \<^verbatim>\<open>new Error(message)\<close> applies to its argument.\<close>

fun join :: "string \<Rightarrow> string list \<Rightarrow> string" where
  "join sep [] = []"
| "join sep [x] = x"
| "join sep (x # y # ys) = x @ sep @ join sep (y # ys)"

fun ToString :: "json \<Rightarrow> string" where
  "ToString JNull = ''null''"
| "ToString (JBool b) = (if b then ''true'' else ''false'')"
| "ToString (JNum n) = string_of_int n"
| "ToString (JStr s) = s"
| "ToString (JArr xs) = join '','' (map (\<lambda>x. if x = JNull then [] else ToString x) xs)"
| "ToString (JObj members) = ''[object Object]''"

subsection \<open>Token management\<close>

text \<open>The module variable \<^verbatim>\<open>authToken\<close> and the browser's \<^verbatim>\<open>localStorage\<close>: there is
  no \<^verbatim>\<open>window\<close> on the server, and an access to the storage may throw.\<close>

datatype storage = NoWindow | Throwing | Storage "string \<rightharpoonup> string"

record ClientState =
  authToken :: "string option"
  localStorage :: storage

definition LOCAL_STORAGE_KEY :: string where
  "LOCAL_STORAGE_KEY = ''lms_access_token''"

definition setAuthToken :: "string \<Rightarrow> ClientState \<Rightarrow> ClientState" where
  "setAuthToken token st =
     \<lparr>authToken = Some token,
      localStorage = (case localStorage st of
                        Storage m \<Rightarrow> Storage (m(LOCAL_STORAGE_KEY \<mapsto> token))
                      | other \<Rightarrow> other)\<rparr>"

definition read_stored :: "ClientState \<Rightarrow> string option \<times> ClientState" where
  "read_stored st =
     (case localStorage st of
        Storage m \<Rightarrow>
          (case m LOCAL_STORAGE_KEY of
             Some stored \<Rightarrow>
               if stored \<noteq> [] then (Some stored, st\<lparr>authToken := Some stored\<rparr>) else (None, st)
           | None \<Rightarrow> (None, st))
      | other \<Rightarrow> (None, st))"

definition getAuthToken :: "ClientState \<Rightarrow> string option \<times> ClientState" where
  "getAuthToken st =
     (case authToken st of
        Some t \<Rightarrow> if t \<noteq> [] then (Some t, st) else read_stored st
      | None \<Rightarrow> read_stored st)"

definition clearAuthToken :: "ClientState \<Rightarrow> ClientState" where
  "clearAuthToken st =
     \<lparr>authToken = None,
      localStorage = (case localStorage st of
                        Storage m \<Rightarrow> Storage (m(LOCAL_STORAGE_KEY := None))
                      | other \<Rightarrow> other)\<rparr>"

subsection \<open>The request\<close>

datatype HttpMethod = GET | POST | PUT | PATCH | DELETE

text \<open>A value of a query parameter: \<^verbatim>\<open>string | number | boolean | null | undefined\<close>, and
  \<^verbatim>\<open>String(value)\<close>.\<close>

datatype qvalue = QString string | QNumber int | QBoolean bool | QNull | QUndefined

fun String_of :: "qvalue \<Rightarrow> string" where
  "String_of (QString s) = s"
| "String_of (QNumber n) = string_of_int n"
| "String_of (QBoolean b) = (if b then ''true'' else ''false'')"
| "String_of QNull = ''null''"
| "String_of QUndefined = ''undefined''"

text \<open>The body given by the caller: nothing, a \<^verbatim>\<open>FormData\<close> (the class exists, as in a
  browser) or a value, \<^verbatim>\<open>null\<close> among them. The body handed to \<^verbatim>\<open>fetch\<close>:
  \<open>JsonText v\<close> stands for the text \<^verbatim>\<open>JSON.stringify(v)\<close>.\<close>

datatype Body = BodyUndefined | BodyFormData "(string \<times> string) list" | BodyValue json

datatype BodyInit = JsonText json | FormPayload "(string \<times> string) list"

record ApiRequestOptions =
  opt_path :: string
  opt_method :: "HttpMethod option"
  opt_body :: Body
  opt_query :: "(string \<times> qvalue) list option"
  opt_headers :: "(string \<rightharpoonup> string) option"
  opt_withAuth :: "bool option"
  opt_tokenOverride :: "string option"

record FetchCall =
  req_url :: string
  req_method :: HttpMethod
  req_headers :: "string \<rightharpoonup> string"
  req_body :: "BodyInit option"

text \<open>\<^verbatim>\<open>s.includes(t)\<close>.\<close>

fun js_includes :: "string \<Rightarrow> string \<Rightarrow> bool" where
  "js_includes [] t = (t = [])"
| "js_includes (c # cs) t = (startsWith (c # cs) t \<or> js_includes cs t)"

text \<open>\<^verbatim>\<open>s.replace(/\/+$/, "")\<close>: the first position from which only slashes follow up to
  the end is where the expression matches; the match is removed.
  \<^verbatim>\<open>s.replace(/^\/+/, "")\<close> removes the run of slashes at the start.\<close>

fun replace_trailing_slashes :: "string \<Rightarrow> string" where
  "replace_trailing_slashes [] = []"
| "replace_trailing_slashes (c # cs) =
     (if list_all (\<lambda>x. x = CHR ''/'') (c # cs) then []
      else c # replace_trailing_slashes cs)"

definition replace_leading_slashes :: "string \<Rightarrow> string" where
  "replace_leading_slashes s = dropWhile (\<lambda>x. x = CHR ''/'') s"

text \<open>The constant \<^verbatim>\<open>API_BASE_URL\<close>, from the environment variable when it is set. The
  functions below take its value as their first argument \<open>base\<close>.\<close>

definition API_BASE_URL :: "string option \<Rightarrow> string" where
  "API_BASE_URL NEXT_PUBLIC_API_BASE_URL =
     (case NEXT_PUBLIC_API_BASE_URL of
        None \<Rightarrow> ''https://backend-lms.farros.space'' | Some u \<Rightarrow> u)"

definition initial_url :: "string \<Rightarrow> string \<Rightarrow> string" where
  "initial_url base path =
     (if startsWith path ''http'' then path
      else replace_trailing_slashes base @ ''/'' @ replace_leading_slashes path)"

text \<open>\<^verbatim>\<open>URLSearchParams\<close>: \<^verbatim>\<open>append\<close> adds a pair at the end; \<^verbatim>\<open>toString\<close> writes the
  pairs in the \<^verbatim>\<open>application/x-www-form-urlencoded\<close> form: the UTF-8 bytes of each name
  and value, a space as \<^verbatim>\<open>+\<close>, letters, digits and \<^verbatim>\<open>*-._\<close> as they are, every other
  byte as \<^verbatim>\<open>%\<close> and two hexadecimal digits.\<close>

definition utf8_bytes :: "char \<Rightarrow> nat list" where
  "utf8_bytes c = (let n = (of_char c :: nat) in
     if n < 128 then [n] else [192 + n div 64, 128 + n mod 64])"

definition hex_char :: "nat \<Rightarrow> char" where
  "hex_char d = (if d < 10 then char_of (48 + d) else char_of (55 + d))"

definition unreserved :: "nat \<Rightarrow> bool" where
  "unreserved b \<longleftrightarrow> b = 42 \<or> b = 45 \<or> b = 46 \<or> b = 95
     \<or> (48 \<le> b \<and> b \<le> 57) \<or> (65 \<le> b \<and> b \<le> 90) \<or> (97 \<le> b \<and> b \<le> 122)"

definition encode_byte :: "nat \<Rightarrow> string" where
  "encode_byte b =
     (if b = 32 then ''+''
      else if unreserved b then [char_of b]
      else [CHR ''%'', hex_char (b div 16), hex_char (b mod 16)])"

definition urlencode :: "string \<Rightarrow> string" where
  "urlencode s = concat (map (\<lambda>c. concat (map encode_byte (utf8_bytes c))) s)"

definition params_toString :: "(string \<times> string) list \<Rightarrow> string" where
  "params_toString params =
     foldl (\<lambda>output (name, val).
              (if output \<noteq> [] then output @ ''&'' else output) @ urlencode name @ ''='' @ urlencode val)
       [] params"

definition query_params :: "(string \<times> qvalue) list \<Rightarrow> (string \<times> string) list" where
  "query_params entries =
     foldl (\<lambda>params (key, val).
              if val = QNull \<or> val = QUndefined \<or> val = QString [] then params
              else params @ [(key, String_of val)])
       [] entries"

definition append_query :: "string \<Rightarrow> (string \<times> qvalue) list option \<Rightarrow> string" where
  "append_query url query =
     (case query of
        None \<Rightarrow> url
      | Some entries \<Rightarrow>
          if length entries > 0 then
            (let qs = params_toString (query_params entries)
             in if qs \<noteq> [] then url @ (if js_includes url ''?'' then ''&'' else ''?'') @ qs else url)
          else url)"

text \<open>The part of \<^verbatim>\<open>apiRequest\<close> before \<^verbatim>\<open>fetch\<close>: the argument of \<^verbatim>\<open>fetch\<close> and the
  state of the token (reading the stored token caches it).\<close>

definition fetch_call :: "string \<Rightarrow> ClientState \<Rightarrow> ApiRequestOptions \<Rightarrow> FetchCall \<times> ClientState" where
  "fetch_call base st options =
     (let path = opt_path options;
          method = (case opt_method options of None \<Rightarrow> GET | Some m \<Rightarrow> m);
          body = opt_body options;
          query = opt_query options;
          headers = (case opt_headers options of None \<Rightarrow> Map.empty | Some h \<Rightarrow> h);
          withAuth = (case opt_withAuth options of None \<Rightarrow> True | Some b \<Rightarrow> b);
          tokenOverride = opt_tokenOverride options;
          url = append_query (initial_url base path) query;
          requestHeaders = [''Accept'' \<mapsto> ''application/json''] ++ headers;
          (requestHeaders, requestBody) =
            (case body of
               BodyValue v \<Rightarrow>
                 if v \<noteq> JNull then
                   (requestHeaders(''Content-Type'' \<mapsto>
                      (case requestHeaders ''Content-Type'' of
                         None \<Rightarrow> ''application/json'' | Some c \<Rightarrow> c)),
                    Some (JsonText v))
                 else (requestHeaders, None)
             | BodyFormData f \<Rightarrow> (requestHeaders, Some (FormPayload f))
             | BodyUndefined \<Rightarrow> (requestHeaders, None));
          (token, st) =
            (if withAuth then
               (case tokenOverride of Some t \<Rightarrow> (Some t, st) | None \<Rightarrow> getAuthToken st)
             else (None, st));
          requestHeaders =
            (case token of
               Some t \<Rightarrow> if t \<noteq> [] then requestHeaders(''Authorization'' \<mapsto> ''Bearer '' @ t)
                         else requestHeaders
             | None \<Rightarrow> requestHeaders)
      in (\<lparr>req_url = url, req_method = method, req_headers = requestHeaders,
           req_body = (if method = GET then None else requestBody)\<rparr>, st))"

subsection \<open>The response\<close>

text \<open>What the program reads of a response: the status, the \<^verbatim>\<open>Content-Type\<close> header
  (\<open>None\<close> when there is none) and the outcome of \<^verbatim>\<open>response.json()\<close> (\<open>None\<close> when the
  body does not parse and the promise rejects).\<close>

record Response =
  res_status :: nat
  res_contentType :: "string option"
  res_json :: "json option"

definition res_ok :: "Response \<Rightarrow> bool" where
  "res_ok response \<longleftrightarrow> 200 \<le> res_status response \<and> res_status response \<le> 299"

record ApiError =
  err_message :: string
  err_status :: nat
  err_data :: json

text \<open>What \<^verbatim>\<open>apiRequest\<close> throws: the rejection of \<^verbatim>\<open>fetch\<close> itself, or its own error.\<close>

datatype thrown = FetchRejected string | Failed ApiError

definition handle_response :: "Response \<Rightarrow> thrown + json" where
  "handle_response response =
     (let contentType = (case res_contentType response of None \<Rightarrow> [] | Some c \<Rightarrow> c);
          isJson = js_includes contentType ''application/json'';
          responseData = (if isJson then (case res_json response of None \<Rightarrow> JNull | Some v \<Rightarrow> v)
                          else JNull)
      in if \<not> res_ok response then
           (let message = ''Request failed with status '' @ string_of_nat (res_status response);
                message =
                  (if isJson \<and> truthy (Some responseData) \<and> typeof_object responseData then
                     (let errBody_message = get_property responseData ''message'';
                          errBody_error = get_property responseData ''error''
                      in if truthy errBody_message \<or> truthy errBody_error then
                           (case coalesce errBody_message errBody_error of
                              None \<Rightarrow> message | Some v \<Rightarrow> if v = JNull then message else ToString v)
                         else message)
                   else message)
            in Inl (Failed \<lparr>err_message = message, err_status = res_status response,
                            err_data = responseData\<rparr>))
         else Inr responseData)"

definition apiRequest ::
  "string \<Rightarrow> (FetchCall \<Rightarrow> string + Response) \<Rightarrow> ClientState \<Rightarrow> ApiRequestOptions
     \<Rightarrow> (thrown + json) \<times> ClientState" where
  "apiRequest base fetch st options =
     (let (call, st) = fetch_call base st options
      in case fetch call of
           Inl reason \<Rightarrow> (Inl (FetchRejected reason), st)
         | Inr response \<Rightarrow> (handle_response response, st))"

section \<open>Verification\<close>

subsection \<open>Facts about the string primitives and the generator\<close>

lemma replace_ws_runs_filter: "replace_ws_runs s = filter (\<lambda>c. \<not> isWhiteSpace c) s"
proof (induction s rule: replace_ws_runs.induct)
  case 1
  show ?case by simp
next
  case (2 c cs)
  have f: "filter (\<lambda>c. \<not> isWhiteSpace c) (dropWhile isWhiteSpace cs)
           = filter (\<lambda>c. \<not> isWhiteSpace c) cs"
    by (induction cs) auto
  show ?case using 2 by (simp add: f)
qed

lemma digit_char_0: "digit_char 0 = CHR ''0''"
  by code_simp

lemma concat_replicate_single: "concat (replicate n [c]) = replicate n c"
  by (induction n) auto

lemma padStart_zero: "padStart s k ''0'' = replicate (k - length s) CHR ''0'' @ s"
  by (simp add: padStart_def Let_def concat_replicate_single)

lemma length_string_of_nat_le: "0 < k \<Longrightarrow> n < 10 ^ k \<Longrightarrow> length (string_of_nat n) \<le> k"
proof (induction k arbitrary: n)
  case 0
  then show ?case by simp
next
  case (Suc k)
  show ?case
  proof (cases "n < 10")
    case True
    then show ?thesis by (simp add: string_of_nat.simps [of n])
  next
    case False
    then have "0 < k" using Suc.prems by (cases k) auto
    moreover have "n div 10 < 10 ^ k" using Suc.prems by (simp add: less_mult_imp_div_less mult.commute)
    ultimately have "length (string_of_nat (n div 10)) \<le> k" by (rule Suc.IH)
    with False show ?thesis by (simp add: string_of_nat.simps [of n])
  qed
qed

lemma length_string_of_nat_gt: "10 ^ k \<le> n \<Longrightarrow> k < length (string_of_nat n)"
proof (induction k arbitrary: n)
  case 0
  then show ?case by (simp add: string_of_nat.simps [of n])
next
  case (Suc k)
  have "(1::nat) \<le> 10 ^ k" by simp
  then have "(10::nat) \<le> 10 * 10 ^ k" by linarith
  moreover have "10 * 10 ^ k \<le> n" using Suc.prems by simp
  ultimately have "\<not> n < 10" by linarith
  moreover have "10 ^ k \<le> n div 10" using Suc.prems by (simp add: less_eq_div_iff_mult_less_eq mult.commute)
  then have "k < length (string_of_nat (n div 10))" by (rule Suc.IH)
  ultimately show ?case by (simp add: string_of_nat.simps [of n])
qed

lemma fixed_digits_zero: "spec_fixed_digits k 0 = replicate k CHR ''0''"
  by (induction k) (auto simp: digit_char_0 replicate_append_same)

lemma pad_fixed_digits:
  "0 < k \<Longrightarrow> n < 10 ^ k \<Longrightarrow>
   replicate (k - length (string_of_nat n)) CHR ''0'' @ string_of_nat n = spec_fixed_digits k n"
proof (induction k arbitrary: n)
  case 0
  then show ?case by simp
next
  case (Suc k)
  show ?case
  proof (cases "n < 10")
    case True
    then show ?thesis by (simp add: string_of_nat.simps [of n] fixed_digits_zero)
  next
    case False
    then have k: "0 < k" using Suc.prems by (cases k) auto
    have d: "n div 10 < 10 ^ k" using Suc.prems by (simp add: less_mult_imp_div_less mult.commute)
    have "replicate (k - length (string_of_nat (n div 10))) CHR ''0'' @ string_of_nat (n div 10)
          = spec_fixed_digits k (n div 10)" using k d by (rule Suc.IH)
    with False show ?thesis by (simp add: string_of_nat.simps [of n])
  qed
qed

lemma padStart_fixed_digits:
  "0 < k \<Longrightarrow> n < 10 ^ k \<Longrightarrow> padStart (string_of_nat n) k ''0'' = spec_fixed_digits k n"
  by (simp add: padStart_zero pad_fixed_digits)

lemma padStart_long: "10 ^ k \<le> n \<Longrightarrow> padStart (string_of_nat n) k ''0'' = string_of_nat n"
  using length_string_of_nat_gt [of k n] by (simp add: padStart_def)

lemma padStart_zero_padded: "0 < k \<Longrightarrow> padStart (string_of_nat n) k ''0'' = spec_zero_padded k n"
  by (simp add: spec_zero_padded_def padStart_fixed_digits padStart_long)

lemma orderStr_zero_padded:
  "0 \<le> order \<Longrightarrow> padStart (string_of_int order) 3 ''0'' = spec_zero_padded 3 (nat order)"
  by (simp add: string_of_int_def padStart_zero_padded)

lemma length_fixed_digits: "length (spec_fixed_digits k n) = k"
  by (induction k arbitrary: n) auto

lemma string_of_nat_four: "1000 \<le> n \<Longrightarrow> n \<le> 9999 \<Longrightarrow> string_of_nat n = spec_fixed_digits 4 n"
proof -
  assume a: "1000 \<le> n" "n \<le> 9999"
  have "3 < length (string_of_nat n)" using length_string_of_nat_gt [of 3 n] a by simp
  moreover have "length (string_of_nat n) \<le> 4" using length_string_of_nat_le [of 4 n] a by simp
  ultimately have "length (string_of_nat n) = 4" by simp
  then show ?thesis using pad_fixed_digits [of 4 n] a by simp
qed

lemma slice_0_7: "slice s 0 (Some 7) = take 7 s"
  by (simp add: slice_def slice_index_def Let_def min_def)

lemma of_char_digit_char: "d < 10 \<Longrightarrow> (of_char (digit_char d) :: nat) = 48 + d"
  by (simp add: digit_char_def)

lemma digit_char_not_ws: "d < 10 \<Longrightarrow> \<not> isWhiteSpace (digit_char d)"
  by (auto simp: isWhiteSpace_def of_char_digit_char)

lemma string_of_nat_not_ws: "list_all (\<lambda>c. \<not> isWhiteSpace c) (string_of_nat n)"
proof (induction n rule: string_of_nat.induct)
  case (1 n)
  show ?case
  proof (cases "n < 10")
    case True
    then show ?thesis by (simp add: string_of_nat.simps [of n] digit_char_not_ws)
  next
    case False
    with 1 show ?thesis by (simp add: string_of_nat.simps [of n] digit_char_not_ws)
  qed
qed

lemma fixed_digits_not_ws: "list_all (\<lambda>c. \<not> isWhiteSpace c) (spec_fixed_digits k n)"
  by (induction k arbitrary: n) (auto simp: digit_char_not_ws)

lemma toLowerChar_not_ws: "\<not> isWhiteSpace c \<Longrightarrow> \<not> isWhiteSpace (toLowerChar c)"
  unfolding isWhiteSpace_def toLowerChar_def Let_def
  by (auto split: if_splits)

lemma normalized_not_ws:
  "list_all (\<lambda>c. \<not> isWhiteSpace c) (take k (map toLowerChar (filter (\<lambda>c. \<not> isWhiteSpace c) s)))"
  by (induction s arbitrary: k) (auto simp: take_Cons toLowerChar_not_ws split: nat.splits)

lemma password_eq:
  "0 \<le> order \<Longrightarrow> password (generateNimAndPassword name order date) =
     take 7 (map toLowerChar (filter (\<lambda>c. \<not> isWhiteSpace c) name)) @ spec_zero_padded 3 (nat order)"
  by (simp add: generateNimAndPassword_def Let_def slice_0_7 toLowerCase_def
      replace_ws_runs_filter orderStr_zero_padded)

lemma nim_eq:
  "0 \<le> order \<Longrightarrow> nim (generateNimAndPassword name order date) =
     string_of_int (getFullYear date) @ padStart (string_of_nat (getMonth date + 1)) 2 ''0''
       @ padStart (string_of_nat (getDate date)) 2 ''0'' @ spec_zero_padded 3 (nat order)"
  by (simp add: generateNimAndPassword_def Let_def orderStr_zero_padded)

lemma username_eq:
  "username (generateNimAndPassword name order date) = nim (generateNimAndPassword name order date)"
  by (simp add: generateNimAndPassword_def Let_def)

text \<open>
  Claim C2, as amended. For every name, every positive sequence number that is a safe
  integer (at most \<open>2^53 - 1\<close>) and every date whose year lies between 1000 and 9999 (month
  index at most 11, day at most 31),
  \<open>generateNimAndPassword\<close> returns an identifier made of the 4 digits of the year, the 2
  digits of the month, the 2 digits of the day and the sequence number zero-padded to 3
  digits; a user name equal to the identifier; and a password made of the first 7
  characters of the name with all white space removed and lower-cased (all of them when
  there are fewer than 7), followed by the same zero-padded sequence number. For
  "Udin Saputra", sequence 1 and 2025-03-07 the result is "20250307001" and "udinsap001".
  The year is written by \<^verbatim>\<open>toString\<close> without padding, so outside 1000..9999 it does
  not have 4 digits. A sequence number beyond the safe integers is a double that
  \<^verbatim>\<open>String\<close> does not write digit for digit (from \<open>10^21\<close> on it writes an exponent), and
  the theorem says nothing about it.
\<close>

theorem generateNimAndPassword_format:
  assumes "0 < order" and "1000 \<le> getFullYear date" and "getFullYear date \<le> 9999"
    and "getMonth date \<le> 11" and "getDate date \<le> 31" and "order \<le> MAX_SAFE_INTEGER"
  shows "nim (generateNimAndPassword name order date) =
           spec_fixed_digits 4 (nat (getFullYear date)) @ spec_fixed_digits 2 (getMonth date + 1)
             @ spec_fixed_digits 2 (getDate date) @ spec_zero_padded 3 (nat order)
         \<and> username (generateNimAndPassword name order date) =
             nim (generateNimAndPassword name order date)
         \<and> password (generateNimAndPassword name order date) =
             take 7 (map toLowerChar (filter (\<lambda>c. \<not> isWhiteSpace c) name)) @ spec_zero_padded 3 (nat order)
         \<and> generateNimAndPassword ''Udin Saputra'' 1 \<lparr>getFullYear = 2025, getMonth = 2, getDate = 7\<rparr>
             = \<lparr>nim = ''20250307001'', password = ''udinsap001'', username = ''20250307001''\<rparr>"
proof -
  have y: "string_of_int (getFullYear date) = spec_fixed_digits 4 (nat (getFullYear date))"
    using assms(2,3) string_of_nat_four [of "nat (getFullYear date)"]
    by (simp add: string_of_int_def)
  have m: "padStart (string_of_nat (getMonth date + 1)) 2 ''0'' = spec_fixed_digits 2 (getMonth date + 1)"
    using assms(4) by (intro padStart_fixed_digits) auto
  have d: "padStart (string_of_nat (getDate date)) 2 ''0'' = spec_fixed_digits 2 (getDate date)"
    using assms(5) by (intro padStart_fixed_digits) auto
  have o: "0 \<le> order" using assms(1) by simp
  have s: "generateNimAndPassword ''Udin Saputra'' 1 \<lparr>getFullYear = 2025, getMonth = 2, getDate = 7\<rparr>
             = \<lparr>nim = ''20250307001'', password = ''udinsap001'', username = ''20250307001''\<rparr>"
    by code_simp
  show ?thesis
    using y m d s by (simp add: nim_eq [OF o] username_eq password_eq [OF o])
qed

text \<open>Claim C2, witness: the theorem at the specification's second scenario: "Al", sequence 7, 2025-03-07.\<close>

theorem generateNimAndPassword_format_witness:
  "(0::int) < 7 \<and> (1000::int) \<le> 2025 \<and> (2025::int) \<le> 9999 \<and> (2::nat) \<le> 11 \<and> (7::nat) \<le> 31
   \<and> (7::int) \<le> MAX_SAFE_INTEGER
   \<and> nim (generateNimAndPassword ''Al'' 7 \<lparr>getFullYear = 2025, getMonth = 2, getDate = 7\<rparr>) = ''20250307007''
   \<and> password (generateNimAndPassword ''Al'' 7 \<lparr>getFullYear = 2025, getMonth = 2, getDate = 7\<rparr>) = ''al007''"
proof -
  let ?d = "\<lparr>getFullYear = 2025, getMonth = 2, getDate = 7\<rparr>"
  have h: "(0::int) < 7" "1000 \<le> getFullYear ?d" "getFullYear ?d \<le> 9999"
    "getMonth ?d \<le> 11" "getDate ?d \<le> 31" "(7::int) \<le> MAX_SAFE_INTEGER"
    by (simp_all add: MAX_SAFE_INTEGER_def)
  have n: "spec_fixed_digits 4 (nat (getFullYear ?d)) @ spec_fixed_digits 2 (getMonth ?d + 1)
             @ spec_fixed_digits 2 (getDate ?d) @ spec_zero_padded 3 (nat 7) = ''20250307007''"
    by code_simp
  have p: "take 7 (map toLowerChar (filter (\<lambda>c. \<not> isWhiteSpace c) ''Al'')) @ spec_zero_padded 3 (nat 7) = ''al007''"
    by code_simp
  from generateNimAndPassword_format [OF h, of "''Al''"] n p
  show ?thesis by (simp add: MAX_SAFE_INTEGER_def)
qed

text \<open>
  Claim C2 as written fails for a date of the year 999: the identifier starts with the three
  characters "999", where the 4-digit year would be "0999".
\<close>

theorem generateNimAndPassword_year_counterexample:
  "nim (generateNimAndPassword ''Udin Saputra'' 1 \<lparr>getFullYear = 999, getMonth = 2, getDate = 7\<rparr>)
     = ''9990307001''
   \<and> spec_fixed_digits 4 999 @ spec_fixed_digits 2 3 @ spec_fixed_digits 2 7 @ spec_zero_padded 3 1 = ''09990307001''"
  by code_simp

text \<open>
  Claim C6, as amended. For every name and every sequence number from 1 to 999, the password
  of \<open>generateNimAndPassword\<close> has at most 10 characters, contains no white space, and its
  last 3 characters are the sequence number written with exactly 3 digits.
\<close>

theorem password_shape:
  assumes "1 \<le> order" and "order \<le> 999"
  shows "length (password (generateNimAndPassword name order date)) \<le> 10
         \<and> list_all (\<lambda>c. \<not> isWhiteSpace c) (password (generateNimAndPassword name order date))
         \<and> drop (length (password (generateNimAndPassword name order date)) - 3)
              (password (generateNimAndPassword name order date)) = spec_fixed_digits 3 (nat order)"
proof -
  have "nat order < 10 ^ 3" using assms by simp
  then have z: "spec_zero_padded 3 (nat order) = spec_fixed_digits 3 (nat order)"
    unfolding spec_zero_padded_def by (rule if_P)
  have o: "0 \<le> order" using assms(1) by simp
  let ?n = "take 7 (map toLowerChar (filter (\<lambda>c. \<not> isWhiteSpace c) name))"
  have p: "password (generateNimAndPassword name order date) = ?n @ spec_fixed_digits 3 (nat order)"
    by (simp add: password_eq [OF o] z)
  have l: "length ?n \<le> 7" by simp
  have "list_all (\<lambda>c. \<not> isWhiteSpace c) (?n @ spec_fixed_digits 3 (nat order))"
    using normalized_not_ws [of 7 name] fixed_digits_not_ws [of 3 "nat order"] by simp
  moreover have "length (?n @ spec_fixed_digits 3 (nat order)) \<le> 10"
    using l by (simp add: length_fixed_digits)
  moreover have "drop (length (?n @ spec_fixed_digits 3 (nat order)) - 3) (?n @ spec_fixed_digits 3 (nat order))
                 = spec_fixed_digits 3 (nat order)"
    by (simp add: length_fixed_digits)
  ultimately show ?thesis unfolding p by blast
qed

text \<open>Claim C6, witness: the theorem at the name "Udin" and the sequence number 2.\<close>

theorem password_shape_witness:
  "(1::int) \<le> 2 \<and> (2::int) \<le> 999
   \<and> length (password (generateNimAndPassword ''Udin'' 2 \<lparr>getFullYear = 2025, getMonth = 2, getDate = 7\<rparr>)) \<le> 10
   \<and> drop (length (password (generateNimAndPassword ''Udin'' 2 \<lparr>getFullYear = 2025, getMonth = 2, getDate = 7\<rparr>)) - 3)
        (password (generateNimAndPassword ''Udin'' 2 \<lparr>getFullYear = 2025, getMonth = 2, getDate = 7\<rparr>)) = ''002''"
proof -
  have h: "(1::int) \<le> 2" "(2::int) \<le> 999" by simp_all
  have f: "spec_fixed_digits 3 (nat 2) = ''002''" by code_simp
  from password_shape [OF h, of "''Udin''" "\<lparr>getFullYear = 2025, getMonth = 2, getDate = 7\<rparr>"] f
  show ?thesis by simp
qed

text \<open>
  Claim C6 as written fails at the sequence number 1000, which \<^verbatim>\<open>padStart(3, "0")\<close>
  leaves with its 4 digits: the password of "Udin Saputra" has 11 characters.
\<close>

theorem password_length_counterexample:
  "password (generateNimAndPassword ''Udin Saputra'' 1000 \<lparr>getFullYear = 2025, getMonth = 2, getDate = 7\<rparr>)
     = ''udinsap1000''
   \<and> length (password (generateNimAndPassword ''Udin Saputra'' 1000
        \<lparr>getFullYear = 2025, getMonth = 2, getDate = 7\<rparr>)) = 11"
  by code_simp

subsection \<open>Facts about the next sequence number\<close>

lemma slice_from: "slice s (int k) None = drop k s"
  by (simp add: slice_def slice_index_def Let_def min_def)

lemma read_integer_Nil: "read_integer [] = None"
  by (simp add: read_integer_def)

lemma suffix_numbers_single:
  "spec_suffix_numbers [u] prefix =
     (case u_nim u of
        None \<Rightarrow> []
      | Some raw \<Rightarrow>
          if u_role u = ''mahasiswa'' \<and> raw \<noteq> [] \<and> startsWith (trim raw) prefix
          then (case read_integer (drop (length prefix) (trim raw)) of
                  None \<Rightarrow> [] | Some n \<Rightarrow> if 0 < n then [n] else [])
          else [])"
  by (simp add: spec_suffix_numbers_def spec_matching_suffixes_def split: option.splits)

lemma order_step_None: "order_step prefix None u = None"
  by (auto simp: order_step_def Let_def split: option.splits number.splits)

lemma order_step_skip:
  "u_nim u = Some raw \<Longrightarrow>
   \<not> (u_role u = ''mahasiswa'' \<and> raw \<noteq> [] \<and> startsWith (trim raw) prefix) \<Longrightarrow>
   order_step prefix (Some m) u = Some m"
  by (auto simp: order_step_def Let_def)

lemma suffix_numbers_skip:
  "u_nim u = Some raw \<Longrightarrow>
   \<not> (u_role u = ''mahasiswa'' \<and> raw \<noteq> [] \<and> startsWith (trim raw) prefix) \<Longrightarrow>
   spec_suffix_numbers [u] prefix = []"
  by (auto simp: suffix_numbers_single)

lemma order_step_max:
  assumes "0 \<le> m"
  shows "order_step prefix (Some m) u =
     (if \<exists>n\<in>set (spec_suffix_numbers [u] prefix). MAX_SAFE_INTEGER < n then None
      else Some (fold max (spec_suffix_numbers [u] prefix) m))"
proof (cases "u_nim u")
  case None
  then show ?thesis by (simp add: suffix_numbers_single order_step_def)
next
  case (Some raw)
  show ?thesis
  proof (cases "u_role u = ''mahasiswa'' \<and> raw \<noteq> [] \<and> startsWith (trim raw) prefix")
    case False
    show ?thesis
      by (simp add: order_step_skip [OF Some False] suffix_numbers_skip [OF Some False])
  next
    case True
    let ?s = "drop (length prefix) (trim raw)"
    have o: "order_step prefix (Some m) u =
               (if length ?s = 0 then Some m
                else (case parseInt ?s of
                        NaN \<Rightarrow> Some m
                      | Exact n \<Rightarrow> if n > m then Some n else Some m
                      | AboveSafe \<Rightarrow> None
                      | BelowSafe \<Rightarrow> Some m))"
      using True Some by (simp add: order_step_def Let_def slice_from split: number.splits)
    have n: "spec_suffix_numbers [u] prefix =
               (case read_integer ?s of None \<Rightarrow> [] | Some n \<Rightarrow> if 0 < n then [n] else [])"
      using True Some by (simp add: suffix_numbers_single)
    show ?thesis
    proof (cases "read_integer ?s")
      case None
      then show ?thesis by (simp add: o n parseInt_def)
    next
      case (Some v)
      then have e: "?s \<noteq> []" using read_integer_Nil by auto
      consider "MAX_SAFE_INTEGER < v" | "v < - MAX_SAFE_INTEGER"
        | "\<not> MAX_SAFE_INTEGER < v" "\<not> v < - MAX_SAFE_INTEGER" by blast
      then show ?thesis
      proof cases
        case 1
        then have "parseInt ?s = AboveSafe" using Some by (simp add: parseInt_def to_number_def)
        moreover have "0 < v" using 1 by (simp add: MAX_SAFE_INTEGER_def)
        ultimately show ?thesis using 1 Some e by (simp add: o n)
      next
        case 2
        then have "parseInt ?s = BelowSafe" using Some
          by (simp add: parseInt_def to_number_def MAX_SAFE_INTEGER_def)
        moreover have "\<not> 0 < v" using 2 by (simp add: MAX_SAFE_INTEGER_def)
        ultimately show ?thesis using Some e by (simp add: o n)
      next
        case 3
        then have "parseInt ?s = Exact v" using Some by (simp add: parseInt_def to_number_def)
        then show ?thesis using 3 Some e \<open>0 \<le> m\<close> by (auto simp: o n max_def)
      qed
    qed
  qed
qed

lemma suffix_numbers_Cons:
  "spec_suffix_numbers (u # users) prefix = spec_suffix_numbers [u] prefix @ spec_suffix_numbers users prefix"
  by (simp add: spec_suffix_numbers_def spec_matching_suffixes_def)

lemma suffix_numbers_positive: "n \<in> set (spec_suffix_numbers users prefix) \<Longrightarrow> 0 < n"
  by (auto simp: spec_suffix_numbers_def)

lemma fold_max_nonneg: "(0::int) \<le> m \<Longrightarrow> 0 \<le> fold max xs m"
  by (induction xs arbitrary: m) auto

lemma foldl_order_step_None: "foldl (order_step prefix) None users = None"
  by (induction users) (auto simp: order_step_None)

lemma foldl_order_step:
  "0 \<le> m \<Longrightarrow> foldl (order_step prefix) (Some m) users =
     (if \<exists>n\<in>set (spec_suffix_numbers users prefix). MAX_SAFE_INTEGER < n then None
      else Some (fold max (spec_suffix_numbers users prefix) m))"
proof (induction users arbitrary: m)
  case Nil
  then show ?case by (simp add: spec_suffix_numbers_def spec_matching_suffixes_def)
next
  case (Cons u users)
  let ?one = "spec_suffix_numbers [u] prefix"
  let ?rest = "spec_suffix_numbers users prefix"
  have c: "spec_suffix_numbers (u # users) prefix = ?one @ ?rest" by (rule suffix_numbers_Cons)
  show ?case
  proof (cases "\<exists>n\<in>set ?one. MAX_SAFE_INTEGER < n")
    case True
    then have "order_step prefix (Some m) u = None"
      by (simp only: order_step_max [OF Cons.prems] if_True)
    then have "foldl (order_step prefix) (Some m) (u # users) = None"
      by (simp add: foldl_order_step_None)
    moreover have "\<exists>n\<in>set (?one @ ?rest). MAX_SAFE_INTEGER < n" using True by auto
    ultimately show ?thesis unfolding c by simp
  next
    case False
    then have s: "order_step prefix (Some m) u = Some (fold max ?one m)"
      by (simp only: order_step_max [OF Cons.prems] if_False)
    have "foldl (order_step prefix) (Some m) (u # users)
          = foldl (order_step prefix) (Some (fold max ?one m)) users"
      by (simp add: s)
    also have "\<dots> = (if \<exists>n\<in>set ?rest. MAX_SAFE_INTEGER < n then None
                       else Some (fold max ?rest (fold max ?one m)))"
      by (rule Cons.IH) (rule fold_max_nonneg [OF Cons.prems])
    finally show ?thesis unfolding c using False by auto
  qed
qed

lemma matching_suffixes_none:
  "spec_matching_suffixes users prefix = [] \<Longrightarrow> spec_suffix_numbers users prefix = []"
  by (simp add: spec_suffix_numbers_def)

lemma fold_max_positive:
  assumes "xs \<noteq> []" and "\<forall>n\<in>set xs. (0::int) < n"
  shows "fold max xs 0 = Max (set xs)"
proof -
  have "fold max xs 0 = Max (set (0 # xs))" by (simp only: Max.set_eq_fold)
  also have "\<dots> = max 0 (Max (set xs))" using assms(1) by simp
  also have "\<dots> = Max (set xs)"
  proof -
    obtain x where "x \<in> set xs" using assms(1) by (cases xs) auto
    then have "0 < x" "x \<le> Max (set xs)" using assms(2) by auto
    then show ?thesis by simp
  qed
  finally show ?thesis .
qed

lemma getNextOrderForToday_fold:
  "getNextOrderForToday users date =
     (if \<exists>n\<in>set (spec_suffix_numbers users (date_prefix date)). MAX_SAFE_INTEGER < n then None
      else Some (fold max (spec_suffix_numbers users (date_prefix date)) 0 + 1))"
  by (simp add: getNextOrderForToday_def date_prefix_def Let_def foldl_order_step)

text \<open>
  Claim C3, as amended. \<open>getNextOrderForToday\<close> reads the identifiers of the students only
  (role "mahasiswa", identifier present and not empty), trimmed. The numbers that count are
  the positive integers written behind the date prefix in those identifiers, as
  \<^verbatim>\<open>parseInt\<close> reads them. When each of them is a safe integer (at most \<open>2^53 - 1\<close>), the
  result is 1 if there is none and one more than the greatest otherwise; it is 1 in
  particular when no identifier of a student starts with the prefix. When one of them is
  not a safe integer, the result is a double of at least \<open>2^53\<close>, about which nothing more
  is said. For the students "20250307001", "20250307002", "20250101999" and 2025-03-07 the
  result is 3.
\<close>

theorem getNextOrderForToday_max:
  fixes users :: "User list" and date :: Date
  defines "numbers \<equiv> spec_suffix_numbers users (date_prefix date)"
  shows "((\<forall>n\<in>set numbers. n \<le> MAX_SAFE_INTEGER) \<longrightarrow>
            getNextOrderForToday users date =
              Some (if numbers = [] then 1 else Max (set numbers) + 1))
         \<and> (spec_matching_suffixes users (date_prefix date) = [] \<longrightarrow>
              getNextOrderForToday users date = Some 1)
         \<and> ((\<exists>n\<in>set numbers. MAX_SAFE_INTEGER < n) \<longrightarrow> getNextOrderForToday users date = None)
         \<and> getNextOrderForToday
              [\<lparr>u_username = ''20250307001'', u_nim = Some ''20250307001'', u_role = ''mahasiswa''\<rparr>,
               \<lparr>u_username = ''20250307002'', u_nim = Some ''20250307002'', u_role = ''mahasiswa''\<rparr>,
               \<lparr>u_username = ''20250101999'', u_nim = Some ''20250101999'', u_role = ''mahasiswa''\<rparr>]
              \<lparr>getFullYear = 2025, getMonth = 2, getDate = 7\<rparr> = Some 3"
proof -
  have f: "getNextOrderForToday users date =
     (if \<exists>n\<in>set numbers. MAX_SAFE_INTEGER < n then None
      else Some (fold max numbers 0 + 1))"
    unfolding numbers_def by (rule getNextOrderForToday_fold)
  have m: "fold max numbers 0 + 1 = (if numbers = [] then 1 else Max (set numbers) + 1)"
  proof (cases "numbers = []")
    case True
    then show ?thesis by simp
  next
    case False
    then show ?thesis
      using fold_max_positive [of numbers] suffix_numbers_positive [of _ users "date_prefix date"]
      unfolding numbers_def by simp
  qed
  have a: "(\<forall>n\<in>set numbers. n \<le> MAX_SAFE_INTEGER) \<longrightarrow>
            getNextOrderForToday users date =
              Some (if numbers = [] then 1 else Max (set numbers) + 1)"
    unfolding f m [symmetric] by (auto simp: not_less [symmetric])
  have b: "spec_matching_suffixes users (date_prefix date) = [] \<longrightarrow>
              getNextOrderForToday users date = Some 1"
    using matching_suffixes_none [of users "date_prefix date"]
    unfolding f numbers_def by auto
  have c: "(\<exists>n\<in>set numbers. MAX_SAFE_INTEGER < n) \<longrightarrow> getNextOrderForToday users date = None"
    unfolding f by simp
  have d: "getNextOrderForToday
              [\<lparr>u_username = ''20250307001'', u_nim = Some ''20250307001'', u_role = ''mahasiswa''\<rparr>,
               \<lparr>u_username = ''20250307002'', u_nim = Some ''20250307002'', u_role = ''mahasiswa''\<rparr>,
               \<lparr>u_username = ''20250101999'', u_nim = Some ''20250101999'', u_role = ''mahasiswa''\<rparr>]
              \<lparr>getFullYear = 2025, getMonth = 2, getDate = 7\<rparr> = Some 3"
    by code_simp
  from a b c d show ?thesis by blast
qed

text \<open>Claim C3, witness: the theorem at the students of the scenario, at a list whose only
  identifier is of another day, and at a student whose identifier carries the number
  9007199254740993 behind the prefix, which is not a safe integer.\<close>

theorem getNextOrderForToday_max_witness:
  "spec_suffix_numbers
     [\<lparr>u_username = ''20250307001'', u_nim = Some ''20250307001'', u_role = ''mahasiswa''\<rparr>,
      \<lparr>u_username = ''20250307002'', u_nim = Some ''20250307002'', u_role = ''mahasiswa''\<rparr>,
      \<lparr>u_username = ''20250101999'', u_nim = Some ''20250101999'', u_role = ''mahasiswa''\<rparr>]
     (date_prefix \<lparr>getFullYear = 2025, getMonth = 2, getDate = 7\<rparr>) = [1, 2]
   \<and> getNextOrderForToday
     [\<lparr>u_username = ''20250307001'', u_nim = Some ''20250307001'', u_role = ''mahasiswa''\<rparr>,
      \<lparr>u_username = ''20250307002'', u_nim = Some ''20250307002'', u_role = ''mahasiswa''\<rparr>,
      \<lparr>u_username = ''20250101999'', u_nim = Some ''20250101999'', u_role = ''mahasiswa''\<rparr>]
     \<lparr>getFullYear = 2025, getMonth = 2, getDate = 7\<rparr> = Some (Max (set [1, 2]) + 1)
   \<and> spec_matching_suffixes
     [\<lparr>u_username = ''x'', u_nim = Some ''20250101999'', u_role = ''mahasiswa''\<rparr>]
     (date_prefix \<lparr>getFullYear = 2025, getMonth = 2, getDate = 7\<rparr>) = []
   \<and> getNextOrderForToday
     [\<lparr>u_username = ''x'', u_nim = Some ''20250101999'', u_role = ''mahasiswa''\<rparr>]
     \<lparr>getFullYear = 2025, getMonth = 2, getDate = 7\<rparr> = Some 1
   \<and> spec_suffix_numbers
     [\<lparr>u_username = ''y'', u_nim = Some ''202503079007199254740993'', u_role = ''mahasiswa''\<rparr>]
     (date_prefix \<lparr>getFullYear = 2025, getMonth = 2, getDate = 7\<rparr>) = [9007199254740993]
   \<and> getNextOrderForToday
     [\<lparr>u_username = ''y'', u_nim = Some ''202503079007199254740993'', u_role = ''mahasiswa''\<rparr>]
     \<lparr>getFullYear = 2025, getMonth = 2, getDate = 7\<rparr> = None"
proof -
  let ?d = "\<lparr>getFullYear = 2025, getMonth = 2, getDate = 7\<rparr>"
  let ?l1 = "[\<lparr>u_username = ''20250307001'', u_nim = Some ''20250307001'', u_role = ''mahasiswa''\<rparr>,
      \<lparr>u_username = ''20250307002'', u_nim = Some ''20250307002'', u_role = ''mahasiswa''\<rparr>,
      \<lparr>u_username = ''20250101999'', u_nim = Some ''20250101999'', u_role = ''mahasiswa''\<rparr>]"
  let ?l2 = "[\<lparr>u_username = ''x'', u_nim = Some ''20250101999'', u_role = ''mahasiswa''\<rparr>]"
  let ?l3 = "[\<lparr>u_username = ''y'', u_nim = Some ''202503079007199254740993'', u_role = ''mahasiswa''\<rparr>]"
  have p: "date_prefix ?d = ''20250307''" by code_simp
  have n1: "spec_suffix_numbers ?l1 (date_prefix ?d) = [1, 2]" by code_simp
  have h2: "spec_matching_suffixes ?l2 (date_prefix ?d) = []" by code_simp
  have t: "trim ''202503079007199254740993'' = ''202503079007199254740993''" by code_simp
  have r: "read_integer ''9007199254740993'' = Some 9007199254740993"
    by (simp add: read_integer_def Let_def isWhiteSpace_def isDigit_def decimal_value_def
        digit_value_def)
  have n3: "spec_suffix_numbers ?l3 (date_prefix ?d) = [9007199254740993]"
    unfolding p by (simp add: suffix_numbers_single t startsWith_def r)
  have b1: "\<forall>n\<in>set (spec_suffix_numbers ?l1 (date_prefix ?d)). n \<le> MAX_SAFE_INTEGER"
    unfolding n1 by (simp add: MAX_SAFE_INTEGER_def)
  have b3: "\<exists>n\<in>set (spec_suffix_numbers ?l3 (date_prefix ?d)). MAX_SAFE_INTEGER < n"
    unfolding n3 by (simp add: MAX_SAFE_INTEGER_def)
  from getNextOrderForToday_max [of ?l1 ?d] b1
  have 1: "getNextOrderForToday ?l1 ?d = Some (Max (set [1, 2]) + 1)"
    unfolding n1 by simp
  from getNextOrderForToday_max [of ?l2 ?d] h2
  have 2: "getNextOrderForToday ?l2 ?d = Some 1" by blast
  from getNextOrderForToday_max [of ?l3 ?d] b3
  have 3: "getNextOrderForToday ?l3 ?d = None" by blast
  from n1 1 h2 2 n3 3 show ?thesis by blast
qed

text \<open>
  Claim C3 as written fails: the identifier "20250307005" of a lecturer starts with the
  prefix and has the suffix 5, and the result is 1, not 6; the identifier "20250307-05" of a
  student starts with the prefix and has the numeric suffix -5, and the result is 1, not -4.
\<close>

theorem getNextOrderForToday_counterexample:
  "getNextOrderForToday
     [\<lparr>u_username = ''budi'', u_nim = Some ''20250307005'', u_role = ''dosen''\<rparr>]
     \<lparr>getFullYear = 2025, getMonth = 2, getDate = 7\<rparr> = Some 1
   \<and> getNextOrderForToday
     [\<lparr>u_username = ''20250307-05'', u_nim = Some ''20250307-05'', u_role = ''mahasiswa''\<rparr>]
     \<lparr>getFullYear = 2025, getMonth = 2, getDate = 7\<rparr> = Some 1
   \<and> date_prefix \<lparr>getFullYear = 2025, getMonth = 2, getDate = 7\<rparr> = ''20250307''
   \<and> startsWith ''20250307005'' ''20250307'' \<and> parseInt (drop 8 ''20250307005'') = Exact 5
   \<and> startsWith ''20250307-05'' ''20250307'' \<and> parseInt (drop 8 ''20250307-05'') = Exact (- 5)"
  by code_simp

subsection \<open>The collision loop ends\<close>

lemma digit_value_digit_char: "d < 10 \<Longrightarrow> digit_value (digit_char d) = d"
  by (simp add: digit_value_def of_char_digit_char)

lemma decimal_value_snoc: "decimal_value (s @ [c]) = 10 * decimal_value s + digit_value c"
  by (simp add: decimal_value_def)

lemma decimal_value_string_of_nat: "decimal_value (string_of_nat n) = n"
proof (induction n rule: string_of_nat.induct)
  case (1 n)
  show ?case
  proof (cases "n < 10")
    case True
    then show ?thesis
      by (simp add: string_of_nat.simps [of n] decimal_value_def digit_value_digit_char)
  next
    case False
    with 1 show ?thesis
      by (simp add: string_of_nat.simps [of n] decimal_value_snoc digit_value_digit_char)
  qed
qed

lemma digit_value_zero: "digit_value CHR ''0'' = 0"
  by (simp add: digit_value_def)

lemma decimal_value_leading_zeros:
  "decimal_value (dropWhile (\<lambda>c. c = CHR ''0'') s) = decimal_value s"
  by (induction s) (auto simp: decimal_value_def digit_value_zero)

lemma string_of_nat_not_Nil: "string_of_nat n \<noteq> []"
  by (subst string_of_nat.simps) simp

lemma string_of_nat_no_minus: "CHR ''-'' \<notin> set (string_of_nat n)"
proof (induction n rule: string_of_nat.induct)
  case (1 n)
  have d: "\<And>d. d < 10 \<Longrightarrow> digit_char d \<noteq> CHR ''-''"
  proof
    fix d :: nat
    assume "d < 10" and "digit_char d = CHR ''-''"
    then have "(of_char (CHR ''-'') :: nat) = 48 + d" using of_char_digit_char [of d] by simp
    then show False by simp
  qed
  show ?case
  proof (cases "n < 10")
    case True
    then show ?thesis using d [of n] by (simp add: string_of_nat.simps [of n])
  next
    case False
    with 1 show ?thesis using d [of "n mod 10"] by (simp add: string_of_nat.simps [of n])
  qed
qed

lemma dropWhile_replicate_zero:
  "dropWhile (\<lambda>c. c = CHR ''0'') (replicate j CHR ''0'' @ s) = dropWhile (\<lambda>c. c = CHR ''0'') s"
  by (induction j) auto

lemma order_of_suffix_digits:
  assumes "CHR ''-'' \<notin> set s"
  shows "order_of_suffix s = int (decimal_value s)"
proof -
  let ?t = "dropWhile (\<lambda>c. c = CHR ''0'') s"
  have "set ?t \<subseteq> set s" by (rule set_dropWhileD [THEN subsetI])
  then have "CHR ''-'' \<notin> set ?t" using assms by blast
  then have n: "\<not> (?t \<noteq> [] \<and> hd ?t = CHR ''-'')" by (cases ?t) auto
  have "order_of_suffix s = int (decimal_value ?t)"
    unfolding order_of_suffix_def Let_def using n by (rule if_not_P)
  then show ?thesis by (simp add: decimal_value_leading_zeros)
qed

lemma order_of_suffix_leading_zeros:
  "order_of_suffix (replicate j CHR ''0'' @ s) = order_of_suffix s"
  by (simp add: order_of_suffix_def dropWhile_replicate_zero)

lemma order_of_suffix_orderStr: "order_of_suffix (padStart (string_of_int k) 3 ''0'') = k"
proof (cases "k < 0")
  case True
  then show ?thesis
    by (simp add: order_of_suffix_def padStart_zero dropWhile_replicate_zero string_of_int_def
        decimal_value_string_of_nat)
next
  case False
  then have "order_of_suffix (padStart (string_of_int k) 3 ''0'')
             = order_of_suffix (string_of_nat (nat k))"
    by (simp add: padStart_zero order_of_suffix_leading_zeros string_of_int_def)
  also have "\<dots> = int (decimal_value (string_of_nat (nat k)))"
    by (rule order_of_suffix_digits) (rule string_of_nat_no_minus)
  finally show ?thesis using False by (simp add: decimal_value_string_of_nat)
qed

lemma nim_prefix:
  "nim (generateNimAndPassword name k date) = date_prefix date @ padStart (string_of_int k) 3 ''0''"
  by (simp add: generateNimAndPassword_def date_prefix_def Let_def)

lemma order_of_nim_generated: "order_of_nim date (nim (generateNimAndPassword name k date)) = k"
  by (simp add: order_of_nim_def nim_prefix order_of_suffix_orderStr)

termination find_candidate
proof (relation "measure (\<lambda>(rawName, now, usedNims, usedUsernames, candidateOrder).
    nat (Max (insert 0 (order_of_nim now ` (set usedNims \<union> set usedUsernames))) + 1 - candidateOrder))")
  show "wf (measure (\<lambda>(rawName, now, usedNims, usedUsernames, candidateOrder).
    nat (Max (insert 0 (order_of_nim now ` (set usedNims \<union> set usedUsernames))) + 1 - candidateOrder)))"
    by simp
next
  fix rawName :: string and now :: Date and usedNims usedUsernames :: "string list"
    and candidateOrder :: int and generated nimUsed usernameUsed
  assume g: "generated = generateNimAndPassword rawName candidateOrder now"
    and n: "nimUsed = (nim generated \<in> set usedNims)"
    and u: "usernameUsed = (username generated \<in> set usedUsernames)"
    and c: "\<not> (\<not> nimUsed \<and> \<not> usernameUsed)"
  let ?S = "order_of_nim now ` (set usedNims \<union> set usedUsernames)"
  have "nim generated \<in> set usedNims \<union> set usedUsernames"
    using g n u c by (auto simp: username_eq)
  then have "order_of_nim now (nim generated) \<in> ?S" by (rule imageI)
  then have "candidateOrder \<in> insert 0 ?S" by (simp add: g order_of_nim_generated)
  then have "candidateOrder \<le> Max (insert 0 ?S)" by (intro Max_ge) auto
  then show "((rawName, now, usedNims, usedUsernames, candidateOrder + 1),
              (rawName, now, usedNims, usedUsernames, candidateOrder))
             \<in> measure (\<lambda>(rawName, now, usedNims, usedUsernames, candidateOrder).
    nat (Max (insert 0 (order_of_nim now ` (set usedNims \<union> set usedUsernames))) + 1 - candidateOrder))"
    by simp
qed

declare find_candidate.simps [simp del]

subsection \<open>Facts about the allocation loop\<close>
















subsection \<open>Facts about the request\<close>

lemma replace_trailing_slashes_eq:
  "replace_trailing_slashes s = rev (dropWhile (\<lambda>c. c = CHR ''/'') (rev s))"
proof (induction s)
  case Nil
  show ?case by simp
next
  case (Cons c cs)
  let ?P = "\<lambda>c. c = CHR ''/''"
  show ?case
  proof (cases "list_all ?P (c # cs)")
    case True
    then have "dropWhile ?P (rev (c # cs)) = []" by (simp add: list_all_iff)
    with True show ?thesis by simp
  next
    case False
    show ?thesis
    proof (cases "list_all ?P cs")
      case True
      with False have c: "\<not> ?P c" by simp
      have "dropWhile ?P (rev cs @ [c]) = dropWhile ?P [c]"
        using True by (intro dropWhile_append2) (simp add: list_all_iff)
      moreover have "dropWhile ?P (rev cs) = []" using True by (simp add: list_all_iff)
      ultimately show ?thesis using False c Cons.IH by simp
    next
      case nall: False
      then obtain x where "x \<in> set (rev cs)" "\<not> ?P x" by (auto simp: list_all_iff)
      then have "dropWhile ?P (rev cs @ [c]) = dropWhile ?P (rev cs) @ [c]"
        by (rule dropWhile_append1)
      with False Cons.IH show ?thesis by simp
    qed
  qed
qed

lemma js_includes_char: "js_includes s [c] \<longleftrightarrow> c \<in> set s"
  by (induction s) (auto simp: startsWith_def)

lemma query_params_acc:
  "foldl (\<lambda>params (key, val).
            if val = QNull \<or> val = QUndefined \<or> val = QString [] then params
            else params @ [(key, String_of val)]) acc entries
   = acc @ map (\<lambda>(k, v). (k, String_of v))
            (filter (\<lambda>(k, v). v \<noteq> QNull \<and> v \<noteq> QUndefined \<and> v \<noteq> QString []) entries)"
  by (induction entries arbitrary: acc) (auto split: prod.splits)

lemma query_params_eq:
  "query_params entries = map (\<lambda>(k, v). (k, String_of v))
     (filter (\<lambda>(k, v). v \<noteq> QNull \<and> v \<noteq> QUndefined \<and> v \<noteq> QString []) entries)"
  by (simp add: query_params_def query_params_acc)

lemma join_Cons: "join sep (x # xs) = x @ concat (map (\<lambda>y. sep @ y) xs)"
  by (induction xs arbitrary: x) auto

lemma params_toString_acc:
  "out \<noteq> [] \<Longrightarrow>
   foldl (\<lambda>output (name, val).
            (if output \<noteq> [] then output @ ''&'' else output) @ urlencode name @ ''='' @ urlencode val)
     out params
   = out @ concat (map (\<lambda>y. ''&'' @ y) (map (\<lambda>(n, v). urlencode n @ ''='' @ urlencode v) params))"
  by (induction params arbitrary: out) (auto split: prod.splits)

lemma params_toString_eq:
  "params_toString params = join ''&'' (map (\<lambda>(n, v). urlencode n @ ''='' @ urlencode v) params)"
proof (cases params)
  case Nil
  then show ?thesis by (simp add: params_toString_def)
next
  case (Cons p ps)
  obtain n v where p: "p = (n, v)" by (cases p)
  let ?F = "\<lambda>output (name, val).
            (if output \<noteq> [] then output @ ''&'' else output) @ urlencode name @ ''='' @ urlencode val"
  let ?x = "urlencode n @ ''='' @ urlencode v"
  have ne: "?x \<noteq> []" by simp
  have "params_toString params = foldl ?F ?x ps"
    unfolding params_toString_def Cons p by simp
  also have "\<dots> = ?x @ concat (map (\<lambda>y. ''&'' @ y)
                        (map (\<lambda>(n, v). urlencode n @ ''='' @ urlencode v) ps))"
    by (rule params_toString_acc [OF ne])
  also have "\<dots> = join ''&'' (map (\<lambda>(n, v). urlencode n @ ''='' @ urlencode v) params)"
    unfolding Cons p by (simp add: join_Cons)
  finally show ?thesis .
qed

lemma params_toString_Nil_iff: "params_toString params = [] \<longleftrightarrow> params = []"
  by (cases params) (auto simp: params_toString_eq join_Cons split: prod.splits)

lemma of_char_hex_char: "d < 16 \<Longrightarrow> (of_char (hex_char d) :: nat) = (if d < 10 then 48 + d else 55 + d)"
  by (simp add: hex_char_def)

lemma encode_byte_codes:
  assumes "b < 256" and "c \<in> set (encode_byte b)"
  shows "(of_char c :: nat) \<noteq> 61 \<and> (of_char c :: nat) \<noteq> 38"
proof (cases "b = 32")
  case True
  with assms(2) have "c = CHR ''+''" by (simp add: encode_byte_def)
  then show ?thesis by simp
next
  case False
  show ?thesis
  proof (cases "unreserved b")
    case True
    with False assms(2) have "c = char_of b" by (simp add: encode_byte_def)
    then have "(of_char c :: nat) = b" using assms(1) by simp
    then show ?thesis using True by (auto simp: unreserved_def)
  next
    case nu: False
    have h: "b div 16 < 16" "b mod 16 < 16" using assms(1) by auto
    from False nu assms(2) have "c = CHR ''%'' \<or> c = hex_char (b div 16) \<or> c = hex_char (b mod 16)"
      by (simp add: encode_byte_def)
    then show ?thesis
      using of_char_hex_char [OF h(1)] of_char_hex_char [OF h(2)]
      by (elim disjE) (simp_all split: if_splits)
  qed
qed

lemma utf8_bytes_range: "b \<in> set (utf8_bytes c) \<Longrightarrow> b < 256"
proof -
  assume a: "b \<in> set (utf8_bytes c)"
  have n: "(of_char c :: nat) < 256" by simp
  have d: "(of_char c :: nat) div 64 < 4" by (rule less_mult_imp_div_less) simp
  have m: "(of_char c :: nat) mod 64 < 64" by simp
  show "b < 256"
  proof (cases "(of_char c :: nat) < 128")
    case True
    with a show ?thesis by (simp add: utf8_bytes_def Let_def)
  next
    case False
    with a have "b = 192 + of_char c div 64 \<or> b = 128 + of_char c mod 64"
      by (simp add: utf8_bytes_def Let_def)
    then show ?thesis using d m by linarith
  qed
qed

lemma urlencode_codes:
  assumes "c \<in> set (urlencode s)"
  shows "(of_char c :: nat) \<noteq> 61 \<and> (of_char c :: nat) \<noteq> 38"
proof -
  from assms obtain ch b where "b \<in> set (utf8_bytes ch)" "c \<in> set (encode_byte b)"
    by (auto simp: urlencode_def)
  then show ?thesis using encode_byte_codes [of b c] utf8_bytes_range [of b ch] by blast
qed

lemma urlencode_no_separator:
  "CHR ''='' \<notin> set (urlencode s) \<and> CHR ''&'' \<notin> set (urlencode s)"
proof -
  have "CHR ''='' \<notin> set (urlencode s)"
  proof
    assume "CHR ''='' \<in> set (urlencode s)"
    from urlencode_codes [OF this] show False by simp
  qed
  moreover have "CHR ''&'' \<notin> set (urlencode s)"
  proof
    assume "CHR ''&'' \<in> set (urlencode s)"
    from urlencode_codes [OF this] show False by simp
  qed
  ultimately show ?thesis by blast
qed

lemma count_eq_pair:
  "length (filter (\<lambda>c. c = CHR ''='') (urlencode n @ ''='' @ urlencode v)) = 1"
  using urlencode_no_separator [of n] urlencode_no_separator [of v]
  by (auto simp: filter_empty_conv)

lemma count_eq_join:
  "length (filter (\<lambda>c. c = CHR ''='')
     (join ''&'' (map (\<lambda>(n, v). urlencode n @ ''='' @ urlencode v) params))) = length params"
proof (induction params)
  case Nil
  show ?case by simp
next
  case (Cons p ps)
  obtain n v where p: "p = (n, v)" by (cases p)
  show ?case
  proof (cases ps)
    case Nil
    then show ?thesis using count_eq_pair [of n v] by (simp add: p)
  next
    case (Cons q qs)
    have "join ''&'' (map (\<lambda>(n, v). urlencode n @ ''='' @ urlencode v) (p # ps))
          = (urlencode n @ ''='' @ urlencode v) @ ''&''
              @ join ''&'' (map (\<lambda>(n, v). urlencode n @ ''='' @ urlencode v) ps)"
      by (simp add: p Cons)
    then show ?thesis using Cons.IH count_eq_pair [of n v] by simp
  qed
qed

lemma fetch_call_url:
  "req_url (fst (fetch_call base st options))
     = append_query (initial_url base (opt_path options)) (opt_query options)"
  by (simp add: fetch_call_def Let_def split: prod.splits)

lemma pair_text_comp:
  "(\<lambda>(n, v). urlencode n @ ''='' @ urlencode v) \<circ> (\<lambda>(k, v). (k, String_of v))
     = (\<lambda>(k, v). urlencode k @ ''='' @ urlencode (String_of v))"
  by (simp add: fun_eq_iff)

lemma query_text:
  "params_toString (query_params entries)
     = join ''&'' (map (\<lambda>(k, v). urlencode k @ ''='' @ urlencode (String_of v))
         (filter (\<lambda>(k, v). v \<noteq> QNull \<and> v \<noteq> QUndefined \<and> v \<noteq> QString []) entries))"
  unfolding params_toString_eq query_params_eq map_map pair_text_comp by (rule refl)

lemma query_text_Nil_iff:
  "params_toString (query_params entries) = []
     \<longleftrightarrow> filter (\<lambda>(k, v). v \<noteq> QNull \<and> v \<noteq> QUndefined \<and> v \<noteq> QString []) entries = []"
  unfolding params_toString_Nil_iff query_params_eq by simp

lemma append_query_eq:
  "append_query url (Some entries) =
     (if filter (\<lambda>(k, v). v \<noteq> QNull \<and> v \<noteq> QUndefined \<and> v \<noteq> QString []) entries = [] then url
      else url @ (if CHR ''?'' \<in> set url then ''&'' else ''?'')
             @ join ''&'' (map (\<lambda>(k, v). urlencode k @ ''='' @ urlencode (String_of v))
                 (filter (\<lambda>(k, v). v \<noteq> QNull \<and> v \<noteq> QUndefined \<and> v \<noteq> QString []) entries)))"
proof (cases "entries = []")
  case True
  then show ?thesis by (simp add: append_query_def)
next
  case ne: False
  let ?kept = "filter (\<lambda>(k, v). v \<noteq> QNull \<and> v \<noteq> QUndefined \<and> v \<noteq> QString []) entries"
  show ?thesis
  proof (cases "?kept = []")
    case True
    then have "params_toString (query_params entries) = []"
      using query_text_Nil_iff [of entries] by blast
    then have "append_query url (Some entries) = url"
      using ne by (simp add: append_query_def Let_def)
    with True show ?thesis by simp
  next
    case False
    then have n: "params_toString (query_params entries) \<noteq> []"
      using query_text_Nil_iff [of entries] by blast
    have "append_query url (Some entries) =
            url @ (if js_includes url ''?'' then ''&'' else ''?'') @ params_toString (query_params entries)"
      using ne n by (simp add: append_query_def Let_def)
    also have "\<dots> = url @ (if CHR ''?'' \<in> set url then ''&'' else ''?'')
             @ join ''&'' (map (\<lambda>(k, v). urlencode k @ ''='' @ urlencode (String_of v)) ?kept)"
      by (simp only: query_text js_includes_char)
    finally show ?thesis using False by simp
  qed
qed

lemma count_eq_query:
  "length (filter (\<lambda>c. c = CHR ''='')
     (join ''&'' (map (\<lambda>(k, v). urlencode k @ ''='' @ urlencode (String_of v)) kept))) = length kept"
  using count_eq_join [of "map (\<lambda>(k, v). (k, String_of v)) kept"]
  unfolding map_map pair_text_comp by simp

text \<open>
  Claim C5. When the options carry a query object, the URL given to \<^verbatim>\<open>fetch\<close> is the
  URL built from the base and the path, followed (behind \<^verbatim>\<open>?\<close>, or \<^verbatim>\<open>&\<close> when the URL
  has a \<^verbatim>\<open>?\<close> already) by the entries whose value is not \<^verbatim>\<open>null\<close>, not
  \<^verbatim>\<open>undefined\<close> and not the empty string, each written as the URL-encoded key, \<^verbatim>\<open>=\<close>
  and the URL-encoded value, joined by \<^verbatim>\<open>&\<close>. Nothing is appended when no entry is kept,
  and the query string has exactly one \<^verbatim>\<open>=\<close> for each kept entry: an omitted entry does
  not appear, not even as a key with an empty value.
\<close>

theorem query_string_entries:
  fixes base :: string and st :: ClientState and options :: ApiRequestOptions
    and entries :: "(string \<times> qvalue) list"
  assumes "opt_query options = Some entries"
  defines "url0 \<equiv> initial_url base (opt_path options)"
    and "kept \<equiv> filter (\<lambda>(k, v). v \<noteq> QNull \<and> v \<noteq> QUndefined \<and> v \<noteq> QString []) entries"
  defines "qs \<equiv> join ''&'' (map (\<lambda>(k, v). urlencode k @ ''='' @ urlencode (String_of v)) kept)"
  shows "req_url (fst (fetch_call base st options))
           = (if kept = [] then url0 else url0 @ (if CHR ''?'' \<in> set url0 then ''&'' else ''?'') @ qs)
         \<and> length (filter (\<lambda>c. c = CHR ''='') qs) = length kept"
proof -
  have "req_url (fst (fetch_call base st options)) = append_query url0 (Some entries)"
    unfolding url0_def by (simp add: fetch_call_url assms(1))
  then show ?thesis
    unfolding qs_def kept_def by (simp only: append_query_eq count_eq_query simp_thms)
qed

text \<open>Claim C5, witness: the theorem at the specification's scenario: a GET with the query
  \<^verbatim>\<open>{ search: "", role: "dosen" }\<close> asks for a URL whose query string is
  \<^verbatim>\<open>role=dosen\<close>.\<close>

theorem query_string_entries_witness:
  "opt_query \<lparr>opt_path = ''/api/users'', opt_method = Some GET, opt_body = BodyUndefined,
      opt_query = Some [(''search'', QString []), (''role'', QString ''dosen'')],
      opt_headers = None, opt_withAuth = None, opt_tokenOverride = None\<rparr>
     = Some [(''search'', QString []), (''role'', QString ''dosen'')]
   \<and> req_url (fst (fetch_call ''https://backend-lms.farros.space''
        \<lparr>authToken = None, localStorage = NoWindow\<rparr>
        \<lparr>opt_path = ''/api/users'', opt_method = Some GET, opt_body = BodyUndefined,
          opt_query = Some [(''search'', QString []), (''role'', QString ''dosen'')],
          opt_headers = None, opt_withAuth = None, opt_tokenOverride = None\<rparr>))
     = ''https://backend-lms.farros.space/api/users?role=dosen''"
proof -
  let ?o = "\<lparr>opt_path = ''/api/users'', opt_method = Some GET, opt_body = BodyUndefined,
      opt_query = Some [(''search'', QString []), (''role'', QString ''dosen'')],
      opt_headers = None, opt_withAuth = None, opt_tokenOverride = None\<rparr>"
  let ?e = "[(''search'', QString []), (''role'', QString ''dosen'')]"
  let ?b = "''https://backend-lms.farros.space''"
  have h: "opt_query ?o = Some ?e" by simp
  have k: "filter (\<lambda>(k, v). v \<noteq> QNull \<and> v \<noteq> QUndefined \<and> v \<noteq> QString []) ?e
           = [(''role'', QString ''dosen'')]" by simp
  have u: "initial_url ?b (opt_path ?o) = ''https://backend-lms.farros.space/api/users''"
    by code_simp
  have q: "urlencode ''role'' @ ''='' @ urlencode (String_of (QString ''dosen'')) = ''role=dosen''"
    by code_simp
  from query_string_entries [OF h, of ?b "\<lparr>authToken = None, localStorage = NoWindow\<rparr>"]
  show ?thesis unfolding k u using q by simp
qed

lemma append_query_None: "append_query url None = url"
  by (simp add: append_query_def)

lemma not_startsWith_dropWhile: "\<not> startsWith (dropWhile (\<lambda>c. c = x) s) [x]"
proof (cases "dropWhile (\<lambda>c. c = x) s")
  case Nil
  show ?thesis unfolding Nil by (simp add: startsWith_def)
next
  case (Cons y ys)
  then have "y \<noteq> x" using hd_dropWhile [of "\<lambda>c. c = x" s] by auto
  with Cons show ?thesis by (simp add: startsWith_def)
qed

text \<open>
  Claim C10. When the path starts with "http", the URL is the path itself followed by the
  query string, and the path alone when there is no query: the base URL takes no part. When
  it does not, the URL is the base URL without its trailing slashes, one slash, and the path
  without its leading slashes (followed by the query string): what stands before the
  joining slash does not end with a slash and what stands behind it does not start with one.
\<close>

theorem url_join:
  fixes base :: string and st :: ClientState and options :: ApiRequestOptions
  defines "call \<equiv> fst (fetch_call base st options)"
    and "path \<equiv> opt_path options"
  defines "b \<equiv> rev (dropWhile (\<lambda>c. c = CHR ''/'') (rev base))"
    and "p \<equiv> dropWhile (\<lambda>c. c = CHR ''/'') path"
  shows "(startsWith path ''http'' \<longrightarrow> req_url call = append_query path (opt_query options))
         \<and> (startsWith path ''http'' \<and> opt_query options = None \<longrightarrow> req_url call = path)
         \<and> (\<not> startsWith path ''http'' \<longrightarrow>
               req_url call = append_query (b @ ''/'' @ p) (opt_query options))
         \<and> (\<not> startsWith path ''http'' \<and> opt_query options = None \<longrightarrow>
               req_url call = b @ ''/'' @ p)
         \<and> \<not> startsWith (rev b) ''/'' \<and> \<not> startsWith p ''/''"
proof -
  have u: "req_url call = append_query (initial_url base path) (opt_query options)"
    unfolding call_def path_def by (rule fetch_call_url)
  have i: "initial_url base path = (if startsWith path ''http'' then path else b @ ''/'' @ p)"
    unfolding b_def p_def
    by (simp add: initial_url_def replace_trailing_slashes_eq replace_leading_slashes_def)
  have s: "\<not> startsWith (rev b) ''/''" "\<not> startsWith p ''/''"
    unfolding b_def p_def by (simp_all add: not_startsWith_dropWhile)
  show ?thesis using s by (auto simp: u i append_query_None)
qed

text \<open>Claim C10, witness: the theorem at an absolute path, and at a base with two trailing slashes joined to a
  path with two leading ones.\<close>

theorem url_join_witness:
  "startsWith ''https://files.example.org//a.pdf'' ''http''
   \<and> req_url (fst (fetch_call ''https://backend-lms.farros.space''
        \<lparr>authToken = None, localStorage = NoWindow\<rparr>
        \<lparr>opt_path = ''https://files.example.org//a.pdf'', opt_method = None, opt_body = BodyUndefined,
          opt_query = None, opt_headers = None, opt_withAuth = None, opt_tokenOverride = None\<rparr>))
       = ''https://files.example.org//a.pdf''
   \<and> \<not> startsWith ''//api/ping'' ''http''
   \<and> req_url (fst (fetch_call ''http://127.0.0.1:8000//''
        \<lparr>authToken = None, localStorage = NoWindow\<rparr>
        \<lparr>opt_path = ''//api/ping'', opt_method = None, opt_body = BodyUndefined,
          opt_query = None, opt_headers = None, opt_withAuth = None, opt_tokenOverride = None\<rparr>))
       = ''http://127.0.0.1:8000/api/ping''"
proof -
  let ?st = "\<lparr>authToken = None, localStorage = NoWindow\<rparr>"
  let ?o1 = "\<lparr>opt_path = ''https://files.example.org//a.pdf'', opt_method = None, opt_body = BodyUndefined,
          opt_query = None, opt_headers = None, opt_withAuth = None, opt_tokenOverride = None\<rparr>"
  let ?o2 = "\<lparr>opt_path = ''//api/ping'', opt_method = None, opt_body = BodyUndefined,
          opt_query = None, opt_headers = None, opt_withAuth = None, opt_tokenOverride = None\<rparr>"
  have h1: "startsWith ''https://files.example.org//a.pdf'' ''http''" by code_simp
  have h2: "\<not> startsWith ''//api/ping'' ''http''" by code_simp
  have b: "rev (dropWhile (\<lambda>c. c = CHR ''/'') (rev ''http://127.0.0.1:8000//'')) = ''http://127.0.0.1:8000''"
    by simp
  have p: "dropWhile (\<lambda>c. c = CHR ''/'') ''//api/ping'' = ''api/ping''" by simp
  from url_join [of ?o1 "''https://backend-lms.farros.space''" ?st] h1
  have 1: "req_url (fst (fetch_call ''https://backend-lms.farros.space'' ?st ?o1))
             = ''https://files.example.org//a.pdf''" by (simp add: append_query_None)
  from url_join [of ?o2 "''http://127.0.0.1:8000//''" ?st] h2
  have 2: "req_url (fst (fetch_call ''http://127.0.0.1:8000//'' ?st ?o2)) = ''http://127.0.0.1:8000/api/ping''"
    unfolding b p by (simp add: append_query_None)
  from h1 h2 1 2 show ?thesis by blast
qed

lemma fetch_call_headers:
  "req_headers (fst (fetch_call base st options)) =
     (let supplied = (case opt_headers options of None \<Rightarrow> Map.empty | Some h \<Rightarrow> h);
          h1 = [''Accept'' \<mapsto> ''application/json''] ++ supplied;
          h2 = (case opt_body options of
                  BodyValue v \<Rightarrow>
                    if v \<noteq> JNull
                    then h1(''Content-Type'' \<mapsto>
                           (case h1 ''Content-Type'' of None \<Rightarrow> ''application/json'' | Some c \<Rightarrow> c))
                    else h1
                | _ \<Rightarrow> h1);
          token = (if opt_withAuth options = Some False then None
                   else (case opt_tokenOverride options of
                           Some t \<Rightarrow> Some t | None \<Rightarrow> fst (getAuthToken st)))
      in case token of
           Some t \<Rightarrow> if t \<noteq> [] then h2(''Authorization'' \<mapsto> ''Bearer '' @ t) else h2
         | None \<Rightarrow> h2)"
  by (cases "opt_withAuth options"; cases "opt_body options"; cases "opt_tokenOverride options";
      cases "getAuthToken st")
     (simp_all add: fetch_call_def Let_def)

text \<open>
  Claim C9. When \<^verbatim>\<open>withAuth\<close> is not false and a token resolves to a non-empty string (the
  \<^verbatim>\<open>tokenOverride\<close> when it is given, the result of \<open>getAuthToken\<close> otherwise), the header
  \<^verbatim>\<open>Authorization\<close> of the request is "Bearer " and the token, whatever
  \<^verbatim>\<open>Authorization\<close> the caller supplied. A header \<^verbatim>\<open>Accept\<close> or \<^verbatim>\<open>Content-Type\<close>
  supplied by the caller is the one of the request; without it the request has
  \<^verbatim>\<open>Accept: application/json\<close>, and \<^verbatim>\<open>Content-Type: application/json\<close> when it has a
  body to serialise.
\<close>

theorem authorization_overwrites:
  fixes base :: string and st :: ClientState and options :: ApiRequestOptions
  defines "call \<equiv> fst (fetch_call base st options)"
    and "supplied \<equiv> (case opt_headers options of None \<Rightarrow> Map.empty | Some h \<Rightarrow> h)"
    and "resolved \<equiv> (case opt_tokenOverride options of
                         Some t \<Rightarrow> Some t | None \<Rightarrow> fst (getAuthToken st))"
  shows "(opt_withAuth options \<noteq> Some False \<and> resolved = Some token \<and> token \<noteq> [] \<longrightarrow>
            req_headers call ''Authorization'' = Some (''Bearer '' @ token))
         \<and> (supplied ''Accept'' = Some a \<longrightarrow> req_headers call ''Accept'' = Some a)
         \<and> (supplied ''Accept'' = None \<longrightarrow> req_headers call ''Accept'' = Some ''application/json'')
         \<and> (supplied ''Content-Type'' = Some c \<longrightarrow> req_headers call ''Content-Type'' = Some c)
         \<and> (supplied ''Content-Type'' = None \<and> opt_body options = BodyValue v \<and> v \<noteq> JNull \<longrightarrow>
              req_headers call ''Content-Type'' = Some ''application/json'')"
  unfolding call_def supplied_def resolved_def fetch_call_headers Let_def
  by (auto simp: map_add_def split: option.splits Body.splits)

text \<open>Claim C9, witness: the theorem at a caller who supplies all three headers while a token is stored, and
  at a caller who supplies none and overrides the token.\<close>

theorem authorization_overwrites_witness:
  "opt_withAuth \<lparr>opt_path = ''/api/users'', opt_method = Some POST, opt_body = BodyValue (JObj []),
        opt_query = None,
        opt_headers = Some [''Authorization'' \<mapsto> ''Basic abc'', ''Accept'' \<mapsto> ''text/csv'',
                            ''Content-Type'' \<mapsto> ''text/plain''],
        opt_withAuth = None, opt_tokenOverride = None\<rparr> \<noteq> Some False
   \<and> fst (getAuthToken \<lparr>authToken = Some ''tok'', localStorage = NoWindow\<rparr>) = Some ''tok''
   \<and> [''Authorization'' \<mapsto> ''Basic abc'', ''Accept'' \<mapsto> ''text/csv'',
       ''Content-Type'' \<mapsto> ''text/plain''] ''Authorization'' = Some ''Basic abc''
   \<and> req_headers (fst (fetch_call ''https://backend-lms.farros.space''
        \<lparr>authToken = Some ''tok'', localStorage = NoWindow\<rparr>
        \<lparr>opt_path = ''/api/users'', opt_method = Some POST, opt_body = BodyValue (JObj []),
          opt_query = None,
          opt_headers = Some [''Authorization'' \<mapsto> ''Basic abc'', ''Accept'' \<mapsto> ''text/csv'',
                              ''Content-Type'' \<mapsto> ''text/plain''],
          opt_withAuth = None, opt_tokenOverride = None\<rparr>)) ''Authorization'' = Some ''Bearer tok''
   \<and> req_headers (fst (fetch_call ''https://backend-lms.farros.space''
        \<lparr>authToken = Some ''tok'', localStorage = NoWindow\<rparr>
        \<lparr>opt_path = ''/api/users'', opt_method = Some POST, opt_body = BodyValue (JObj []),
          opt_query = None,
          opt_headers = Some [''Authorization'' \<mapsto> ''Basic abc'', ''Accept'' \<mapsto> ''text/csv'',
                              ''Content-Type'' \<mapsto> ''text/plain''],
          opt_withAuth = None, opt_tokenOverride = None\<rparr>)) ''Accept'' = Some ''text/csv''
   \<and> req_headers (fst (fetch_call ''https://backend-lms.farros.space''
        \<lparr>authToken = Some ''tok'', localStorage = NoWindow\<rparr>
        \<lparr>opt_path = ''/api/users'', opt_method = Some POST, opt_body = BodyValue (JObj []),
          opt_query = None,
          opt_headers = Some [''Authorization'' \<mapsto> ''Basic abc'', ''Accept'' \<mapsto> ''text/csv'',
                              ''Content-Type'' \<mapsto> ''text/plain''],
          opt_withAuth = None, opt_tokenOverride = None\<rparr>)) ''Content-Type'' = Some ''text/plain''
   \<and> req_headers (fst (fetch_call ''https://backend-lms.farros.space''
        \<lparr>authToken = None, localStorage = NoWindow\<rparr>
        \<lparr>opt_path = ''/api/users'', opt_method = Some POST, opt_body = BodyValue (JObj []),
          opt_query = None, opt_headers = None,
          opt_withAuth = None, opt_tokenOverride = Some ''srv''\<rparr>)) ''Authorization'' = Some ''Bearer srv''
   \<and> req_headers (fst (fetch_call ''https://backend-lms.farros.space''
        \<lparr>authToken = None, localStorage = NoWindow\<rparr>
        \<lparr>opt_path = ''/api/users'', opt_method = Some POST, opt_body = BodyValue (JObj []),
          opt_query = None, opt_headers = None,
          opt_withAuth = None, opt_tokenOverride = Some ''srv''\<rparr>)) ''Accept'' = Some ''application/json''
   \<and> req_headers (fst (fetch_call ''https://backend-lms.farros.space''
        \<lparr>authToken = None, localStorage = NoWindow\<rparr>
        \<lparr>opt_path = ''/api/users'', opt_method = Some POST, opt_body = BodyValue (JObj []),
          opt_query = None, opt_headers = None,
          opt_withAuth = None, opt_tokenOverride = Some ''srv''\<rparr>)) ''Content-Type''
       = Some ''application/json''"
proof -
  let ?h = "[''Authorization'' \<mapsto> ''Basic abc'', ''Accept'' \<mapsto> ''text/csv'',
             ''Content-Type'' \<mapsto> ''text/plain'']"
  let ?o1 = "\<lparr>opt_path = ''/api/users'', opt_method = Some POST, opt_body = BodyValue (JObj []),
          opt_query = None, opt_headers = Some ?h, opt_withAuth = None, opt_tokenOverride = None\<rparr>"
  let ?o2 = "\<lparr>opt_path = ''/api/users'', opt_method = Some POST, opt_body = BodyValue (JObj []),
          opt_query = None, opt_headers = None,
          opt_withAuth = None, opt_tokenOverride = Some ''srv''\<rparr>"
  let ?s1 = "\<lparr>authToken = Some ''tok'', localStorage = NoWindow\<rparr>"
  let ?s2 = "\<lparr>authToken = None, localStorage = NoWindow\<rparr>"
  let ?b = "''https://backend-lms.farros.space''"
  have g: "fst (getAuthToken ?s1) = Some ''tok''" by (simp add: getAuthToken_def)
  have h: "?h ''Authorization'' = Some ''Basic abc''" "?h ''Accept'' = Some ''text/csv''"
    "?h ''Content-Type'' = Some ''text/plain''" by simp_all
  from authorization_overwrites [where options = ?o1 and st = ?s1 and token = "''tok''"
      and a = "''text/csv''" and base = ?b and c = "''text/plain''" and v = "JObj []"] g h
  have 1: "req_headers (fst (fetch_call ?b ?s1 ?o1)) ''Authorization'' = Some ''Bearer tok''
           \<and> req_headers (fst (fetch_call ?b ?s1 ?o1)) ''Accept'' = Some ''text/csv''
           \<and> req_headers (fst (fetch_call ?b ?s1 ?o1)) ''Content-Type'' = Some ''text/plain''"
    by simp
  from authorization_overwrites [where options = ?o2 and st = ?s2 and token = "''srv''"
      and a = "''text/csv''" and base = ?b and c = "''text/plain''" and v = "JObj []"]
  have 2: "req_headers (fst (fetch_call ?b ?s2 ?o2)) ''Authorization'' = Some ''Bearer srv''
           \<and> req_headers (fst (fetch_call ?b ?s2 ?o2)) ''Accept'' = Some ''application/json''
           \<and> req_headers (fst (fetch_call ?b ?s2 ?o2)) ''Content-Type'' = Some ''application/json''"
    by simp
  from g h 1 2 show ?thesis by simp
qed

subsection \<open>Facts about the response\<close>

lemma apiRequest_response:
  "fetch (fst (fetch_call base st options)) = Inr response \<Longrightarrow>
   fst (apiRequest base fetch st options) = handle_response response"
  by (cases "fetch_call base st options") (simp add: apiRequest_def Let_def)

text \<open>
  Claim C8. For the response that \<^verbatim>\<open>fetch\<close> resolves to: when the content type includes
  "application/json" and the body does not parse, a 2xx status makes \<open>apiRequest\<close> return
  \<^verbatim>\<open>null\<close>; when the content type does not include it, a 2xx status makes it return
  \<^verbatim>\<open>null\<close> as well. With another status, what is thrown in both cases is the error of
  that status, with the body \<^verbatim>\<open>null\<close>: never an error of parsing.
\<close>

theorem malformed_json_is_null:
  fixes base :: string and fetch :: "FetchCall \<Rightarrow> string + Response" and st :: ClientState
    and options :: ApiRequestOptions and response :: Response
  assumes "fetch (fst (fetch_call base st options)) = Inr response"
  defines "isJson \<equiv> js_includes (case res_contentType response of None \<Rightarrow> [] | Some c \<Rightarrow> c)
                       ''application/json''"
  shows "(isJson \<and> res_json response = None \<and> res_ok response \<longrightarrow>
            fst (apiRequest base fetch st options) = Inr JNull)
         \<and> (\<not> isJson \<and> res_ok response \<longrightarrow> fst (apiRequest base fetch st options) = Inr JNull)
         \<and> ((isJson \<and> res_json response = None \<or> \<not> isJson) \<and> \<not> res_ok response \<longrightarrow>
              fst (apiRequest base fetch st options) =
                Inl (Failed \<lparr>err_message = ''Request failed with status ''
                                             @ string_of_nat (res_status response),
                             err_status = res_status response, err_data = JNull\<rparr>))"
proof -
  have r: "fst (apiRequest base fetch st options) = handle_response response"
    using assms(1) by (rule apiRequest_response)
  show ?thesis
    unfolding r isJson_def by (auto simp: handle_response_def Let_def)
qed

text \<open>
  Claim C4, as amended. For a response whose status is outside 200..299, \<open>apiRequest\<close> never
  returns normally: it throws an error that carries the status and the parsed body
  (\<^verbatim>\<open>null\<close> when the response is not JSON or does not parse). The message of the error is
  the \<^verbatim>\<open>message\<close> member of a JSON body when that is a non-empty string; the
  \<^verbatim>\<open>error\<close> member when \<^verbatim>\<open>message\<close> is missing or \<^verbatim>\<open>null\<close> and \<^verbatim>\<open>error\<close> is a
  non-empty string; and "Request failed with status" and the status when the response is not
  JSON or neither member has a truthy value (missing, \<^verbatim>\<open>null\<close> or empty).
\<close>

theorem error_normalisation:
  fixes base :: string and fetch :: "FetchCall \<Rightarrow> string + Response" and st :: ClientState
    and options :: ApiRequestOptions and response :: Response
  assumes "fetch (fst (fetch_call base st options)) = Inr response" and "\<not> res_ok response"
  defines "isJson \<equiv> js_includes (case res_contentType response of None \<Rightarrow> [] | Some c \<Rightarrow> c)
                       ''application/json''"
  defines "body \<equiv> (if isJson then (case res_json response of None \<Rightarrow> JNull | Some v \<Rightarrow> v)
                    else JNull)"
  shows "\<exists>e. fst (apiRequest base fetch st options) = Inl (Failed e)
           \<and> err_status e = res_status response \<and> err_data e = body
           \<and> (isJson \<and> get_property body ''message'' = Some (JStr m) \<and> m \<noteq> [] \<longrightarrow>
                err_message e = m)
           \<and> (isJson \<and> nullish (get_property body ''message'')
                \<and> get_property body ''error'' = Some (JStr x) \<and> x \<noteq> [] \<longrightarrow> err_message e = x)
           \<and> (\<not> isJson \<or> (\<not> truthy (get_property body ''message'')
                              \<and> \<not> truthy (get_property body ''error'')) \<longrightarrow>
                err_message e = ''Request failed with status '' @ string_of_nat (res_status response))"
proof -
  have o: "get_property body k = Some v \<Longrightarrow> truthy (Some body) \<and> typeof_object body" for k v
    by (cases body) auto
  have r: "fst (apiRequest base fetch st options) = handle_response response"
    using assms(1) by (rule apiRequest_response)
  show ?thesis
    unfolding r
    using assms(2) o [of "''message''"] o [of "''error''"]
    unfolding isJson_def body_def
    by (cases "get_property body ''message''")
       (auto simp: handle_response_def Let_def coalesce_def isJson_def body_def)
qed

text \<open>Claim C8, witness: the theorem at a 200 whose JSON body does not parse, at a 204 of type text/html and at
  a 502 of type text/html.\<close>

theorem malformed_json_is_null_witness:
  "(\<lambda>call. Inr \<lparr>res_status = 200, res_contentType = Some ''application/json; charset=utf-8'',
                   res_json = None\<rparr>)
      (fst (fetch_call ''https://backend-lms.farros.space''
         \<lparr>authToken = None, localStorage = NoWindow\<rparr>
         \<lparr>opt_path = ''/api/ping'', opt_method = None, opt_body = BodyUndefined, opt_query = None,
           opt_headers = None, opt_withAuth = Some False, opt_tokenOverride = None\<rparr>))
     = (Inr \<lparr>res_status = 200, res_contentType = Some ''application/json; charset=utf-8'',
              res_json = None\<rparr> :: string + Response)
   \<and> js_includes ''application/json; charset=utf-8'' ''application/json''
   \<and> res_ok \<lparr>res_status = 200, res_contentType = Some ''application/json; charset=utf-8'',
              res_json = None\<rparr>
   \<and> fst (apiRequest ''https://backend-lms.farros.space''
        (\<lambda>call. Inr \<lparr>res_status = 200, res_contentType = Some ''application/json; charset=utf-8'',
                       res_json = None\<rparr>)
        \<lparr>authToken = None, localStorage = NoWindow\<rparr>
        \<lparr>opt_path = ''/api/ping'', opt_method = None, opt_body = BodyUndefined, opt_query = None,
          opt_headers = None, opt_withAuth = Some False, opt_tokenOverride = None\<rparr>) = Inr JNull
   \<and> \<not> js_includes ''text/html'' ''application/json''
   \<and> fst (apiRequest ''https://backend-lms.farros.space''
        (\<lambda>call. Inr \<lparr>res_status = 204, res_contentType = Some ''text/html'',
                       res_json = Some (JStr ''ignored'')\<rparr>)
        \<lparr>authToken = None, localStorage = NoWindow\<rparr>
        \<lparr>opt_path = ''/api/ping'', opt_method = None, opt_body = BodyUndefined, opt_query = None,
          opt_headers = None, opt_withAuth = Some False, opt_tokenOverride = None\<rparr>) = Inr JNull
   \<and> fst (apiRequest ''https://backend-lms.farros.space''
        (\<lambda>call. Inr \<lparr>res_status = 502, res_contentType = Some ''text/html'',
                       res_json = None\<rparr>)
        \<lparr>authToken = None, localStorage = NoWindow\<rparr>
        \<lparr>opt_path = ''/api/ping'', opt_method = None, opt_body = BodyUndefined, opt_query = None,
          opt_headers = None, opt_withAuth = Some False, opt_tokenOverride = None\<rparr>)
       = Inl (Failed \<lparr>err_message = ''Request failed with status 502'', err_status = 502,
                      err_data = JNull\<rparr>)"
proof -
  let ?b = "''https://backend-lms.farros.space''"
  let ?st = "\<lparr>authToken = None, localStorage = NoWindow\<rparr>"
  let ?o = "\<lparr>opt_path = ''/api/ping'', opt_method = None, opt_body = BodyUndefined, opt_query = None,
          opt_headers = None, opt_withAuth = Some False, opt_tokenOverride = None\<rparr>"
  let ?r1 = "\<lparr>res_status = 200, res_contentType = Some ''application/json; charset=utf-8'',
              res_json = None\<rparr>"
  let ?r2 = "\<lparr>res_status = 204, res_contentType = Some ''text/html'',
              res_json = Some (JStr ''ignored'')\<rparr>"
  let ?r3 = "\<lparr>res_status = 502, res_contentType = Some ''text/html'', res_json = None\<rparr>"
  have j1: "js_includes ''application/json; charset=utf-8'' ''application/json''" by code_simp
  have j2: "\<not> js_includes ''text/html'' ''application/json''" by code_simp
  have k1: "res_ok ?r1" and k2: "res_ok ?r2" and k3: "\<not> res_ok ?r3" by (simp_all add: res_ok_def)
  have s: "string_of_nat 502 = ''502''" by code_simp
  have f1: "(\<lambda>call. Inr ?r1 :: string + Response) (fst (fetch_call ?b ?st ?o)) = Inr ?r1" by simp
  have f2: "(\<lambda>call. Inr ?r2 :: string + Response) (fst (fetch_call ?b ?st ?o)) = Inr ?r2" by simp
  have f3: "(\<lambda>call. Inr ?r3 :: string + Response) (fst (fetch_call ?b ?st ?o)) = Inr ?r3" by simp
  from malformed_json_is_null [of "\<lambda>call. Inr ?r1" ?b ?st ?o ?r1, OF f1] j1 k1
  have 1: "fst (apiRequest ?b (\<lambda>call. Inr ?r1) ?st ?o) = Inr JNull"
    by (simp del: js_includes.simps)
  from malformed_json_is_null [of "\<lambda>call. Inr ?r2" ?b ?st ?o ?r2, OF f2] j2 k2
  have 2: "fst (apiRequest ?b (\<lambda>call. Inr ?r2) ?st ?o) = Inr JNull"
    by (simp del: js_includes.simps)
  from malformed_json_is_null [of "\<lambda>call. Inr ?r3" ?b ?st ?o ?r3, OF f3] j2 k3
  have 3: "fst (apiRequest ?b (\<lambda>call. Inr ?r3) ?st ?o)
       = Inl (Failed \<lparr>err_message = ''Request failed with status 502'', err_status = 502,
                      err_data = JNull\<rparr>)" by (simp add: s del: js_includes.simps)
  from j1 j2 k1 1 2 3 show ?thesis by (simp del: js_includes.simps)
qed

text \<open>Claim C4, witness: the theorem at the specification's scenario: status 401 with the JSON body
  \<^verbatim>\<open>{ "message": "Unauthorized" }\<close>.\<close>

theorem error_normalisation_witness:
  "\<not> res_ok \<lparr>res_status = 401, res_contentType = Some ''application/json'',
               res_json = Some (JObj [(''message'', JStr ''Unauthorized'')])\<rparr>
   \<and> js_includes ''application/json'' ''application/json''
   \<and> get_property (JObj [(''message'', JStr ''Unauthorized'')]) ''message'' = Some (JStr ''Unauthorized'')
   \<and> (\<exists>e. fst (apiRequest ''https://backend-lms.farros.space''
          (\<lambda>call. Inr \<lparr>res_status = 401, res_contentType = Some ''application/json'',
                         res_json = Some (JObj [(''message'', JStr ''Unauthorized'')])\<rparr>)
          \<lparr>authToken = Some ''expired'', localStorage = NoWindow\<rparr>
          \<lparr>opt_path = ''/api/auth/me'', opt_method = None, opt_body = BodyUndefined, opt_query = None,
            opt_headers = None, opt_withAuth = None, opt_tokenOverride = None\<rparr>) = Inl (Failed e)
        \<and> err_message e = ''Unauthorized'' \<and> err_status e = 401
        \<and> err_data e = JObj [(''message'', JStr ''Unauthorized'')])"
proof -
  let ?b = "''https://backend-lms.farros.space''"
  let ?st = "\<lparr>authToken = Some ''expired'', localStorage = NoWindow\<rparr>"
  let ?o = "\<lparr>opt_path = ''/api/auth/me'', opt_method = None, opt_body = BodyUndefined, opt_query = None,
            opt_headers = None, opt_withAuth = None, opt_tokenOverride = None\<rparr>"
  let ?r = "\<lparr>res_status = 401, res_contentType = Some ''application/json'',
               res_json = Some (JObj [(''message'', JStr ''Unauthorized'')])\<rparr>"
  have k: "\<not> res_ok ?r" by (simp add: res_ok_def)
  have j: "js_includes ''application/json'' ''application/json''" by code_simp
  have g: "get_property (JObj [(''message'', JStr ''Unauthorized'')]) ''message''
             = Some (JStr ''Unauthorized'')" by simp
  have f: "(\<lambda>call. Inr ?r :: string + Response) (fst (fetch_call ?b ?st ?o)) = Inr ?r" by simp
  from error_normalisation [of "\<lambda>call. Inr ?r" ?b ?st ?o ?r "''Unauthorized''", OF f k] j g
  have "\<exists>e. fst (apiRequest ?b (\<lambda>call. Inr ?r) ?st ?o) = Inl (Failed e)
        \<and> err_message e = ''Unauthorized'' \<and> err_status e = 401
        \<and> err_data e = JObj [(''message'', JStr ''Unauthorized'')]"
    by (auto simp del: js_includes.simps)
  with k j g show ?thesis by blast
qed

text \<open>
  Claim C4 as written fails. The body \<^verbatim>\<open>{ "message": "" }\<close> has a \<^verbatim>\<open>message\<close> member,
  and the message of the error is the generic one, not that member. The body
  \<^verbatim>\<open>{ "message": "", "error": "Invalid" }\<close> has a non-empty \<^verbatim>\<open>error\<close> member and an
  empty \<^verbatim>\<open>message\<close>, and the message of the error is empty.
\<close>

theorem error_message_counterexample:
  "get_property (JObj [(''message'', JStr [])]) ''message'' = Some (JStr [])
   \<and> fst (apiRequest ''https://backend-lms.farros.space''
        (\<lambda>call. Inr \<lparr>res_status = 400, res_contentType = Some ''application/json'',
                       res_json = Some (JObj [(''message'', JStr [])])\<rparr>)
        \<lparr>authToken = None, localStorage = NoWindow\<rparr>
        \<lparr>opt_path = ''/api/users'', opt_method = Some POST, opt_body = BodyValue (JObj []),
          opt_query = None, opt_headers = None, opt_withAuth = None, opt_tokenOverride = None\<rparr>)
       = Inl (Failed \<lparr>err_message = ''Request failed with status 400'', err_status = 400,
                      err_data = JObj [(''message'', JStr [])]\<rparr>)
   \<and> fst (apiRequest ''https://backend-lms.farros.space''
        (\<lambda>call. Inr \<lparr>res_status = 400, res_contentType = Some ''application/json'',
                       res_json = Some (JObj [(''message'', JStr []), (''error'', JStr ''Invalid'')])\<rparr>)
        \<lparr>authToken = None, localStorage = NoWindow\<rparr>
        \<lparr>opt_path = ''/api/users'', opt_method = Some POST, opt_body = BodyValue (JObj []),
          opt_query = None, opt_headers = None, opt_withAuth = None, opt_tokenOverride = None\<rparr>)
       = Inl (Failed \<lparr>err_message = [], err_status = 400,
                      err_data = JObj [(''message'', JStr []), (''error'', JStr ''Invalid'')]\<rparr>)"
  by code_simp

end
